theory Spec2Isabelle
  imports Main "HOL-Library.Char_ord" "HOL-Library.List_Lexorder" "HOL-Library.Multiset"
begin

section \<open>Values of the host language\<close>

text \<open>
  A thrown value is either an object (an \<open>Error\<close> instance or a plain object, with the
  optional \<open>code\<close> and \<open>status\<close> fields the retry classifier looks at) or a primitive
  (a string, \<open>null\<close>, \<open>undefined\<close>), for which \<open>typeof error !== 'object'\<close> or
  \<open>!error\<close> holds.
\<close>

datatype thrown =
    JsObject (instanceof_Error: bool) (message: string) (code: "string option") (status: "int option")
  | JsPrimitive string

definition new_Error :: "string \<Rightarrow> thrown" where
  "new_Error msg = JsObject True msg None None"

text \<open>
  \<open>BigNumber\<close> is an arbitrary-precision integer. Its \<open>div\<close> truncates towards zero and
  throws on a zero divisor; \<open>mul\<close>, \<open>sub\<close> and \<open>add\<close> are exact.
\<close>

definition division_by_zero :: thrown where
  "division_by_zero = JsObject True ''division-by-zero'' (Some ''NUMERIC_FAULT'') None"

definition bn_div :: "int \<Rightarrow> int \<Rightarrow> thrown + int" where
  "bn_div a b = (if b = 0 then Inl division_by_zero else Inr (sgn a * sgn b * (\<bar>a\<bar> div \<bar>b\<bar>)))"

section \<open>Deviation of the pool price from the target price\<close>

datatype Direction = increase | decrease | none

record deviation_result =
  deviation :: int
  deviationBps :: int
  direction :: Direction

definition calculateDeviation :: "int \<Rightarrow> int \<Rightarrow> thrown + deviation_result" where
  "calculateDeviation currentPrice targetPrice =
     (if targetPrice = 0 then
        Inr \<lparr>deviation = 0, deviationBps = 0, direction = none\<rparr>
      else if currentPrice = targetPrice then
        Inr \<lparr>deviation = 0, deviationBps = 0, direction = none\<rparr>
      else
        let dir = (if currentPrice > targetPrice then decrease else increase);
            dev = (if currentPrice > targetPrice then currentPrice - targetPrice
                   else targetPrice - currentPrice)
        in case bn_div (dev * 10000) targetPrice of
             Inl e \<Rightarrow> Inl e
           | Inr bps \<Rightarrow> Inr \<lparr>deviation = dev, deviationBps = bps, direction = dir\<rparr>)"

text \<open>The direction with increase and decrease exchanged.\<close>

fun flip :: "Direction \<Rightarrow> Direction" where
  "flip increase = decrease"
| "flip decrease = increase"
| "flip none = none"

section \<open>Resilient chain reader\<close>

definition RPC_MAX_RETRIES :: nat where
  "RPC_MAX_RETRIES = 3"

definition RPC_RETRY_BASE_DELAY_MS :: nat where
  "RPC_RETRY_BASE_DELAY_MS = 1000"

text \<open>
  \<open>isRetryableRpcError\<close>: a primitive is never retryable; an object is retryable when
  its \<open>status\<close> is truthy and at least 500, and otherwise when its \<open>code\<close> is truthy and
  equal to one of the two classifications.
\<close>

fun isRetryableRpcError :: "thrown \<Rightarrow> bool" where
  "isRetryableRpcError (JsPrimitive v) = False"
| "isRetryableRpcError (JsObject ie msg c st) =
     (if (case st of None \<Rightarrow> False | Some n \<Rightarrow> n \<noteq> 0 \<and> n \<ge> 500) then True
      else if (case c of None \<Rightarrow> True | Some s \<Rightarrow> s = []) then False
      else (c = Some ''SERVER_ERROR'' \<or> c = Some ''NETWORK_ERROR''))"

text \<open>
  \<open>withRpcRetry\<close>. The operation is a state transformer on the world it reads: each call
  returns a value or throws, and leaves a new world. The run records what the caller
  observes (\<open>outcome\<close>), every delay requested in milliseconds, in order (\<open>delays\<close>), the
  number of calls of the operation (\<open>attempts\<close>) and the world left behind (\<open>final\<close>).
  The \<open>context\<close> argument of the source only labels the warning that is logged and is
  left out.
\<close>

record ('a, 's) retry_run =
  outcome :: "thrown + 'a"
  delays :: "nat list"
  attempts :: nat
  final :: 's

function withRpcRetry_loop ::
  "('s \<Rightarrow> (thrown + 'a) \<times> 's) \<Rightarrow> nat \<Rightarrow> thrown option \<Rightarrow> nat list \<Rightarrow> 's \<Rightarrow> ('a, 's) retry_run" where
  "withRpcRetry_loop operation attempt lastError ds s =
     (if attempt < RPC_MAX_RETRIES then
        (case operation s of
           (Inr v, s') \<Rightarrow>
             \<lparr>outcome = Inr v, delays = ds, attempts = attempt + 1, final = s'\<rparr>
         | (Inl error, s') \<Rightarrow>
             if \<not> isRetryableRpcError error \<or> attempt + 1 = RPC_MAX_RETRIES then
               \<lparr>outcome = Inl error, delays = ds, attempts = attempt + 1, final = s'\<rparr>
             else
               withRpcRetry_loop operation (attempt + 1) (Some error)
                 (ds @ [RPC_RETRY_BASE_DELAY_MS * (attempt + 1)]) s')
      else
        \<lparr>outcome = Inl (case lastError of None \<Rightarrow> JsPrimitive ''undefined'' | Some e \<Rightarrow> e),
         delays = ds, attempts = attempt, final = s\<rparr>)"
  by pat_completeness auto
termination
  by (relation "measure (\<lambda>(operation, attempt, lastError, ds, s). RPC_MAX_RETRIES - attempt)") auto

definition withRpcRetry :: "('s \<Rightarrow> (thrown + 'a) \<times> 's) \<Rightarrow> 's \<Rightarrow> ('a, 's) retry_run" where
  "withRpcRetry operation s = withRpcRetry_loop operation 0 None [] s"

text \<open>
  A read of a chain that does not change between the attempts: the operation returns the
  same outcome at every call, and the caller sees what the wrapper returns.
\<close>

definition rpc_read :: "thrown + 'a \<Rightarrow> thrown + 'a" where
  "rpc_read r = outcome (withRpcRetry (\<lambda>u::unit. (r, u)) ())"

section \<open>Project discovery\<close>

definition MAX_EVENT_BLOCK_SPAN :: int where
  "MAX_EVENT_BLOCK_SPAN = 10"

text \<open>\<open>String.prototype.toLowerCase\<close> on the ASCII letters an address is written with.\<close>

definition toLowerCase_char :: "char \<Rightarrow> char" where
  "toLowerCase_char c =
     (case map_of (zip ''ABCDEFGHIJKLMNOPQRSTUVWXYZ'' ''abcdefghijklmnopqrstuvwxyz'') c of
        Some l \<Rightarrow> l
      | None \<Rightarrow> c)"

definition toLowerCase :: "string \<Rightarrow> string" where
  "toLowerCase s = map toLowerCase_char s"

text \<open>
  \<open>BigNumber.toNumber\<close> throws when the value does not fit the 53 bits of a safe
  host number.
\<close>

definition bn_toNumber :: "int \<Rightarrow> thrown + int" where
  "bn_toNumber n =
     (if \<bar>n\<bar> < 2 ^ 53 then Inr n
      else Inl (JsObject True ''overflow'' (Some ''NUMERIC_FAULT'') None))"

text \<open>
  A \<open>ProjectCreated\<close> log entry as the scan reads it: its block number and its decoded
  arguments, which may be missing; the first positional argument and the named
  arguments \<open>project\<close> and \<open>token\<close> may each be missing too.
\<close>

record event_args =
  args_0 :: "string option"
  args_project :: "string option"
  args_token :: "string option"

record event =
  blockNumber :: nat
  args :: "event_args option"

text \<open>
  What the registry answers to the three reads of the scan, each after the retry wrapper:
  the latest block height, the project count and the creation events of a block range.
\<close>

record registry_view =
  getBlockNumber :: "thrown + nat"
  projectCount :: "thrown + int"
  queryFilter :: "int \<Rightarrow> int \<Rightarrow> thrown + event list"

text \<open>
  The body of the inner loop over a batch. \<open>seenProjects\<close> is a \<open>Set\<close> of strings, kept
  as the list of its members in insertion order, without repetition: \<open>has\<close> is
  membership, \<open>add\<close> appends a new member, \<open>size\<close> is the length.
\<close>

fun scan_event :: "string list \<times> event list \<Rightarrow> event \<Rightarrow> string list \<times> event list" where
  "scan_event (seenProjects, events) ev =
     (case args ev of
        None \<Rightarrow> (seenProjects, events)
      | Some a \<Rightarrow>
          (case (case args_0 a of Some x \<Rightarrow> Some x | None \<Rightarrow> args_project a) of
             None \<Rightarrow> (seenProjects, events)
           | Some projectAddress \<Rightarrow>
               if projectAddress = [] then (seenProjects, events)
               else
                 let normalized = toLowerCase projectAddress
                 in if normalized \<notin> set seenProjects
                    then (seenProjects @ [normalized], events @ [ev])
                    else (seenProjects, events)))"

text \<open>
  The window loop, from \<open>currentEndBlock\<close> downwards. It returns the events kept and the
  list of the block ranges queried, in the order of the queries.
\<close>

function scan_windows ::
  "registry_view \<Rightarrow> int \<Rightarrow> int \<Rightarrow> string list \<times> event list \<Rightarrow> (int \<times> int) list \<Rightarrow>
     thrown + event list \<times> (int \<times> int) list" where
  "scan_windows registry totalProjects currentEndBlock acc queried =
     (if currentEndBlock \<ge> 0 \<and> int (length (fst acc)) < totalProjects then
        let currentStartBlock = max 0 (currentEndBlock - MAX_EVENT_BLOCK_SPAN + 1)
        in case rpc_read (queryFilter registry currentStartBlock currentEndBlock) of
             Inl e \<Rightarrow> Inl e
           | Inr batch \<Rightarrow>
               scan_windows registry totalProjects (currentStartBlock - 1)
                 (foldl scan_event acc batch)
                 (queried @ [(currentStartBlock, currentEndBlock)])
      else Inr (snd acc, queried))"
  by pat_completeness auto
termination
  by (relation "measure (\<lambda>(registry, totalProjects, currentEndBlock, acc, queried).
        nat (currentEndBlock + 1))")
     (auto simp: MAX_EVENT_BLOCK_SPAN_def)

record discovery_run =
  found :: "event list"
  queries :: "(int \<times> int) list"

text \<open>
  \<open>fetchProjectCreationEvents\<close>. \<open>Array.prototype.sort\<close> with the comparator
  \<open>a.blockNumber - b.blockNumber\<close> is a stable sort on the block number.
\<close>

definition fetchProjectCreationEvents :: "registry_view \<Rightarrow> thrown + discovery_run" where
  "fetchProjectCreationEvents registry =
     (case rpc_read (getBlockNumber registry) of
        Inl e \<Rightarrow> Inl e
      | Inr latestBlock \<Rightarrow>
     (case rpc_read (projectCount registry) of
        Inl e \<Rightarrow> Inl e
      | Inr projectCountBn \<Rightarrow>
     (case bn_toNumber projectCountBn of
        Inl e \<Rightarrow> Inl e
      | Inr totalProjects \<Rightarrow>
          if totalProjects = 0 then Inr \<lparr>found = [], queries = []\<rparr>
          else
            (case scan_windows registry totalProjects (int latestBlock) ([], []) [] of
               Inl e \<Rightarrow> Inl e
             | Inr (events, queried) \<Rightarrow>
                 Inr \<lparr>found = sort_key blockNumber events, queries = queried\<rparr>))))"

text \<open>
  A registry whose creation events are the list \<open>log\<close>, read at block height \<open>latest\<close>:
  it counts one project for each event and answers a range query with the events of
  the range, in the order of the log.
\<close>

definition in_range :: "int \<Rightarrow> int \<Rightarrow> event \<Rightarrow> bool" where
  "in_range lo hi ev \<longleftrightarrow> lo \<le> int (blockNumber ev) \<and> int (blockNumber ev) \<le> hi"

definition registry_of :: "event list \<Rightarrow> nat \<Rightarrow> registry_view" where
  "registry_of log latest =
     \<lparr>getBlockNumber = Inr latest,
      projectCount = Inr (int (length log)),
      queryFilter = (\<lambda>lo hi. Inr (filter (in_range lo hi) log))\<rparr>"

text \<open>
  The normalized project address under which the scan remembers an event, when the
  event has one.
\<close>

definition creation_key :: "event \<Rightarrow> string option" where
  "creation_key ev =
     (case args ev of
        None \<Rightarrow> None
      | Some a \<Rightarrow>
          (case (case args_0 a of Some x \<Rightarrow> Some x | None \<Rightarrow> args_project a) of
             None \<Rightarrow> None
           | Some projectAddress \<Rightarrow>
               if projectAddress = [] then None else Some (toLowerCase projectAddress)))"

text \<open>
  A queried block range is a window: it lies between block 0 and the latest block and
  spans at most \<open>MAX_EVENT_BLOCK_SPAN\<close> blocks.
\<close>

definition window_ok :: "nat \<Rightarrow> int \<times> int \<Rightarrow> bool" where
  "window_ok latest q \<longleftrightarrow>
     0 \<le> fst q \<and> fst q \<le> snd q \<and> snd q - fst q < MAX_EVENT_BLOCK_SPAN \<and> snd q \<le> int latest"

text \<open>
  What the window loop keeps true of its accumulator: the seen addresses are the
  normalized addresses of the kept events, in the same order and without repetition,
  and the kept events are events of the log that carry a project address.
\<close>

definition scan_inv :: "event list \<Rightarrow> string list \<times> event list \<Rightarrow> bool" where
  "scan_inv log acc \<longleftrightarrow>
     fst acc = map (\<lambda>ev. the (creation_key ev)) (snd acc) \<and>
     distinct (fst acc) \<and>
     None \<notin> set (map creation_key (snd acc)) \<and>
     set (snd acc) \<subseteq> set log"

section \<open>Strings\<close>

text \<open>\<open>String.prototype.includes\<close>: the needle occurs as a contiguous part of the string.\<close>

fun startsWith :: "string \<Rightarrow> string \<Rightarrow> bool" where
  "startsWith s [] = True"
| "startsWith [] (c # cs) = False"
| "startsWith (x # xs) (c # cs) = (x = c \<and> startsWith xs cs)"

fun includes_str :: "string \<Rightarrow> string \<Rightarrow> bool" where
  "includes_str [] needle = (needle = [])"
| "includes_str (x # xs) needle = (startsWith (x # xs) needle \<or> includes_str xs needle)"

text \<open>The decimal rendering of a number, as \<open>toString\<close> and template literals give it.\<close>

function string_of_nat :: "nat \<Rightarrow> string" where
  "string_of_nat n =
     (if n < 10 then [''0123456789'' ! n]
      else string_of_nat (n div 10) @ [''0123456789'' ! (n mod 10)])"
  by pat_completeness auto
termination
  by (relation "measure (\<lambda>n. n)") auto

definition string_of_int :: "int \<Rightarrow> string" where
  "string_of_int i = (if i < 0 then ''-'' @ string_of_nat (nat (- i)) else string_of_nat (nat i))"

text \<open>
  What the handlers report for a thrown value: \<open>error.message\<close> for an \<open>Error\<close>
  instance, \<open>String(error)\<close> otherwise.
\<close>

fun error_text :: "thrown \<Rightarrow> string" where
  "error_text (JsObject ie msg c st) = (if ie then msg else ''[object Object]'')"
| "error_text (JsPrimitive v) = v"

text \<open>\<open>error instanceof Error && error.message.includes(needle)\<close>.\<close>

fun error_message_includes :: "thrown \<Rightarrow> string \<Rightarrow> bool" where
  "error_message_includes (JsObject ie msg c st) needle = (ie \<and> includes_str msg needle)"
| "error_message_includes (JsPrimitive v) needle = False"

section \<open>Data model\<close>

definition DEFAULT_DEVIATION_THRESHOLD_BPS :: int where
  "DEFAULT_DEVIATION_THRESHOLD_BPS = 150"

definition DEFAULT_REBALANCE_LIQUIDITY_BPS :: int where
  "DEFAULT_REBALANCE_LIQUIDITY_BPS = 2500"

definition ENABLE_BACKFILL :: bool where
  "ENABLE_BACKFILL = False"

definition WEI_PER_ETHER :: int where
  "WEI_PER_ETHER = 10 ^ 18"

definition Q192 :: int where
  "Q192 = 2 ^ 192"

definition MAX_UINT128 :: int where
  "MAX_UINT128 = 2 ^ 128 - 1"

definition AddressZero :: string where
  "AddressZero = ''0x0000000000000000000000000000000000000000''"

datatype known_error =
    INVALID_REGISTRY_ADDRESS
  | PROJECT_DISCOVERY_FAILED
  | POSITION_DISCOVERY_FAILED
  | NAV_TARGET_ZERO
  | PROVIDER_ERROR
  | POLICY_ERROR

record NetworkConfig =
  uniswapFactory :: string
  positionManager :: string

definition NETWORK_CONFIG :: "int \<Rightarrow> NetworkConfig option" where
  "NETWORK_CONFIG chainId =
     (if chainId = 1 then
        Some \<lparr>uniswapFactory = ''0x1F98431c8aD98523631AE4a59f267346ea31F984'',
              positionManager = ''0xC36442b4a4522E871399CD717aBDD847Ab11FE88''\<rparr>
      else if chainId = 11155111 then
        Some \<lparr>uniswapFactory = ''0x0227628f3F023bb0B980b67D528571c95c6DaC1c'',
              positionManager = ''0x1238536071E1c677A632429e3655c799b22cDA52''\<rparr>
      else None)"

record ProjectInfo =
  projectAddress :: string
  tokenAddress :: string
  pyusdAddress :: string

record PositionInfo =
  tokenId :: string
  token0 :: string
  token1 :: string
  fee :: int
  liquidity :: int
  tickLower :: int
  tickUpper :: int

text \<open>
  The fields \<open>deviationBps\<close> and \<open>direction\<close> of a \<open>ProjectMetrics\<close> carry the prefix
  \<open>metric_\<close>, and the fields of an \<open>ActionRecord\<close> the prefix \<open>action_\<close>, to keep them
  apart from the fields of the same name of the other records.
\<close>

record ProjectMetrics =
  project :: ProjectInfo
  poolAddress :: "string option"
  navPerShare :: int
  targetPoolPrice :: int
  currentPoolPrice :: int
  poolLiquidity :: int
  metric_deviationBps :: int
  metric_direction :: Direction
  positions :: "PositionInfo list"

record ActionRecord =
  action_projectAddress :: string
  action_tokenId :: "string option"
  action_name :: string
  txHash :: string

text \<open>
  A request to the state-mutating call dispatcher (\<open>contractCall\<close>). Amounts, which the
  source passes as decimal strings, are kept as numbers.
\<close>

datatype call_args =
    NoArgs
  | DecreaseLiquidityArgs string int int int int
  | CollectArgs string string int int
  | ApproveArgs string int
  | IncreaseLiquidityArgs string int int int int int

record contract_call =
  call_pkpPublicKey :: string
  callerAddress :: string
  contractAddress :: string
  functionName :: string
  call_args :: call_args

text \<open>The fields 2 to 7 of the tuple that \<open>positions(tokenId)\<close> returns.\<close>

record position_data =
  pos_token0 :: string
  pos_token1 :: string
  pos_fee :: int
  pos_tickLower :: int
  pos_tickUpper :: int
  pos_liquidity :: int

text \<open>
  The chain and the signing service as the engine meets them. The reads that come before
  the first state-mutating call see the chain as it is found; each is given with the
  outcome of the call, a value or a thrown error. The token balances and allowances are
  read between state-mutating calls, so they, the clock and the dispatcher depend on
  the world \<open>'w\<close> that the calls made so far have left.
\<close>

record 'w chain =
  isAddress :: "string \<Rightarrow> bool"
  getNetwork :: "thrown + int"
  registry_at :: "string \<Rightarrow> registry_view"
  pyusd :: "string \<Rightarrow> thrown + string"
  getNAVPerShare :: "string \<Rightarrow> thrown + int"
  getTargetPoolPrice :: "string \<Rightarrow> thrown + int"
  getPool :: "string \<Rightarrow> string \<Rightarrow> string \<Rightarrow> int \<Rightarrow> thrown + string"
  slot0 :: "string \<Rightarrow> thrown + int"
  pool_liquidity :: "string \<Rightarrow> thrown + int"
  nft_balanceOf :: "string \<Rightarrow> string \<Rightarrow> thrown + int"
  tokenOfOwnerByIndex :: "string \<Rightarrow> string \<Rightarrow> nat \<Rightarrow> thrown + int"
  nft_positions :: "string \<Rightarrow> int \<Rightarrow> thrown + position_data"
  erc20_balanceOf :: "'w \<Rightarrow> string \<Rightarrow> string \<Rightarrow> thrown + int"
  erc20_allowance :: "'w \<Rightarrow> string \<Rightarrow> string \<Rightarrow> string \<Rightarrow> thrown + int"
  contractCall :: "'w \<Rightarrow> contract_call \<Rightarrow> (thrown + string) \<times> 'w"
  Date_now :: "'w \<Rightarrow> int"

section \<open>Network configuration\<close>

definition inferChainIdFromRpc :: "string option \<Rightarrow> int option" where
  "inferChainIdFromRpc rpcUrl =
     (case rpcUrl of
        None \<Rightarrow> None
      | Some url \<Rightarrow>
          if url = [] then None
          else
            let lowered = toLowerCase url
            in if includes_str lowered ''sepolia'' then Some 11155111
               else if includes_str lowered ''mainnet'' then Some 1
               else None)"

definition discoverNetworkConfig :: "'w chain \<Rightarrow> string option \<Rightarrow> thrown + NetworkConfig" where
  "discoverNetworkConfig chain rpcUrl =
     (case (case getNetwork chain of
              Inl e \<Rightarrow> Inl e
            | Inr chainId \<Rightarrow>
                (case NETWORK_CONFIG chainId of
                   None \<Rightarrow> Inl (new_Error (''Unsupported network '' @ string_of_int chainId))
                 | Some config \<Rightarrow> Inr config)) of
        Inr config \<Rightarrow> Inr config
      | Inl error \<Rightarrow>
          (case inferChainIdFromRpc rpcUrl of
             None \<Rightarrow> Inl error
           | Some fallbackChainId \<Rightarrow>
               (case NETWORK_CONFIG fallbackChainId of
                  None \<Rightarrow> Inl error
                | Some config \<Rightarrow> Inr config)))"

section \<open>Projects of the registry\<close>

text \<open>
  \<open>discoverProjects\<close>. \<open>projectsMap\<close> is a \<open>Map\<close> from the project address to the
  \<open>ProjectInfo\<close> that carries it, written only for absent keys: it is kept as the list of
  its values in insertion order.
\<close>

fun collect_projects :: "'w chain \<Rightarrow> event list \<Rightarrow> ProjectInfo list \<Rightarrow> thrown + ProjectInfo list" where
  "collect_projects chain [] projectsMap = Inr projectsMap"
| "collect_projects chain (ev # events) projectsMap =
     (case (case args ev of None \<Rightarrow> None | Some a \<Rightarrow> args_project a) of
        None \<Rightarrow> collect_projects chain events projectsMap
      | Some project_address \<Rightarrow>
     (case (case args ev of None \<Rightarrow> None | Some a \<Rightarrow> args_token a) of
        None \<Rightarrow> collect_projects chain events projectsMap
      | Some token_address \<Rightarrow>
          if project_address = [] \<or> token_address = [] then
            collect_projects chain events projectsMap
          else if project_address \<in> set (map projectAddress projectsMap) then
            collect_projects chain events projectsMap
          else
            (case rpc_read (pyusd chain project_address) of
               Inl e \<Rightarrow> Inl e
             | Inr pyusd_address \<Rightarrow>
                 collect_projects chain events
                   (projectsMap @ [\<lparr>projectAddress = project_address,
                                    tokenAddress = token_address,
                                    pyusdAddress = pyusd_address\<rparr>]))))"

definition discoverProjects :: "'w chain \<Rightarrow> string \<Rightarrow> thrown + ProjectInfo list" where
  "discoverProjects chain registryAddress =
     (case fetchProjectCreationEvents (registry_at chain registryAddress) of
        Inl e \<Rightarrow> Inl e
      | Inr run \<Rightarrow> collect_projects chain (found run) [])"

section \<open>Metrics of a project\<close>

definition computePoolPrice :: "int \<Rightarrow> thrown + int" where
  "computePoolPrice sqrtPriceX96 = bn_div (sqrtPriceX96 * sqrtPriceX96 * WEI_PER_ETHER) Q192"

text \<open>
  \<open>fetchProjectMetrics\<close>. The three reads under \<open>Promise.all\<close> are taken in the order of
  the array: of several failing reads the model reports the first.
\<close>

definition fetchProjectMetrics ::
  "'w chain \<Rightarrow> ProjectInfo \<Rightarrow> NetworkConfig \<Rightarrow> thrown + ProjectMetrics" where
  "fetchProjectMetrics chain proj config =
     (case rpc_read (getNAVPerShare chain (projectAddress proj)) of
        Inl e \<Rightarrow> Inl e
      | Inr nav \<Rightarrow>
     (case rpc_read (getTargetPoolPrice chain (projectAddress proj)) of
        Inl e \<Rightarrow> Inl e
      | Inr target \<Rightarrow>
     (case rpc_read (getPool chain (uniswapFactory config) (tokenAddress proj) (pyusdAddress proj) 3000) of
        Inl e \<Rightarrow> Inl e
      | Inr pool \<Rightarrow>
          if target = 0 then
            Inl (new_Error ''Target pool price returned 0 from CornerstoneProject'')
          else
            (case (if pool \<noteq> [] \<and> pool \<noteq> AddressZero then
                     (case rpc_read (slot0 chain pool) of
                        Inl e \<Rightarrow> Inl e
                      | Inr sqrtPriceX96 \<Rightarrow>
                     (case computePoolPrice sqrtPriceX96 of
                        Inl e \<Rightarrow> Inl e
                      | Inr price \<Rightarrow>
                     (case rpc_read (pool_liquidity chain pool) of
                        Inl e \<Rightarrow> Inl e
                      | Inr liq \<Rightarrow> Inr (price, liq))))
                   else Inr (0, 0)) of
               Inl e \<Rightarrow> Inl e
             | Inr (current, liq) \<Rightarrow>
                 (case calculateDeviation current target of
                    Inl e \<Rightarrow> Inl e
                  | Inr d \<Rightarrow>
                      Inr \<lparr>project = proj,
                           poolAddress = (if pool \<noteq> [] \<and> pool \<noteq> AddressZero then Some pool else None),
                           navPerShare = nav,
                           targetPoolPrice = target,
                           currentPoolPrice = current,
                           poolLiquidity = liq,
                           metric_deviationBps = deviationBps d,
                           metric_direction = direction d,
                           positions = []\<rparr>)))))"

text \<open>
  \<open>Promise.all\<close> over the projects, taken in the order of the list, with the first
  failure as the failure of the whole.
\<close>

fun fetch_all_metrics ::
  "'w chain \<Rightarrow> NetworkConfig \<Rightarrow> ProjectInfo list \<Rightarrow> thrown + ProjectMetrics list" where
  "fetch_all_metrics chain config [] = Inr []"
| "fetch_all_metrics chain config (proj # projects) =
     (case fetchProjectMetrics chain proj config of
        Inl e \<Rightarrow> Inl e
      | Inr metric \<Rightarrow>
          (case fetch_all_metrics chain config projects of
             Inl e \<Rightarrow> Inl e
           | Inr metrics \<Rightarrow> Inr (metric # metrics)))"

section \<open>Positions of the delegated wallet\<close>

fun owned_positions_loop ::
  "'w chain \<Rightarrow> NetworkConfig \<Rightarrow> string \<Rightarrow> nat list \<Rightarrow> PositionInfo list \<Rightarrow> thrown + PositionInfo list" where
  "owned_positions_loop chain config ownerAddress [] acc = Inr acc"
| "owned_positions_loop chain config ownerAddress (index # rest) acc =
     (case rpc_read (tokenOfOwnerByIndex chain (positionManager config) ownerAddress index) of
        Inl e \<Rightarrow> Inl e
      | Inr token_id \<Rightarrow>
     (case rpc_read (nft_positions chain (positionManager config) token_id) of
        Inl e \<Rightarrow> Inl e
      | Inr position \<Rightarrow>
          owned_positions_loop chain config ownerAddress rest
            (acc @ [\<lparr>tokenId = string_of_int token_id,
                     token0 = pos_token0 position,
                     token1 = pos_token1 position,
                     fee = pos_fee position,
                     liquidity = pos_liquidity position,
                     tickLower = pos_tickLower position,
                     tickUpper = pos_tickUpper position\<rparr>])))"

definition fetchOwnedPositions ::
  "'w chain \<Rightarrow> NetworkConfig \<Rightarrow> string \<Rightarrow> thrown + PositionInfo list" where
  "fetchOwnedPositions chain config ownerAddress =
     (case rpc_read (nft_balanceOf chain (positionManager config) ownerAddress) of
        Inl e \<Rightarrow> Inl e
      | Inr balance \<Rightarrow>
     (case bn_toNumber balance of
        Inl e \<Rightarrow> Inl e
      | Inr position_count \<Rightarrow>
          owned_positions_loop chain config ownerAddress [0..<nat position_count] []))"

section \<open>Matching positions to projects\<close>

text \<open>
  The key of a token pair: the two lowercased addresses, sorted as strings and joined by
  a colon.
\<close>

definition pair_key :: "string \<Rightarrow> string \<Rightarrow> string" where
  "pair_key a b =
     (let x = toLowerCase a; y = toLowerCase b
      in if x \<le> y then x @ '':'' @ y else y @ '':'' @ x)"

definition project_key :: "ProjectMetrics \<Rightarrow> string" where
  "project_key metric = pair_key (tokenAddress (project metric)) (pyusdAddress (project metric))"

definition position_key :: "PositionInfo \<Rightarrow> string" where
  "position_key position = pair_key (token0 position) (token1 position)"

text \<open>
  \<open>attachPositionsToProjects\<close>. The \<open>Map\<close> \<open>projectTokenPairs\<close> holds, for each key, a
  reference to a metric object of the array; a reference is kept as the index of the
  object in the array, and a later \<open>set\<close> of the same key replaces the earlier one.
  \<open>metric.positions.push\<close> then changes the object at that index.
\<close>

fun projectTokenPairs ::
  "nat \<Rightarrow> ProjectMetrics list \<Rightarrow> (string \<rightharpoonup> nat) \<Rightarrow> (string \<rightharpoonup> nat)" where
  "projectTokenPairs i [] tbl = tbl"
| "projectTokenPairs i (metric # rest) tbl =
     projectTokenPairs (Suc i) rest (tbl(project_key metric \<mapsto> i))"

fun attach_loop ::
  "(string \<rightharpoonup> nat) \<Rightarrow> PositionInfo list \<Rightarrow> ProjectMetrics list \<Rightarrow> ProjectMetrics list" where
  "attach_loop tbl [] metrics = metrics"
| "attach_loop tbl (position # rest) metrics =
     attach_loop tbl rest
       (case tbl (position_key position) of
          None \<Rightarrow> metrics
        | Some i \<Rightarrow>
            metrics[i := (metrics ! i)\<lparr>positions := positions (metrics ! i) @ [position]\<rparr>])"

definition attachPositionsToProjects ::
  "ProjectMetrics list \<Rightarrow> PositionInfo list \<Rightarrow> ProjectMetrics list" where
  "attachPositionsToProjects metrics ps =
     attach_loop (projectTokenPairs 0 metrics Map.empty) ps metrics"

section \<open>Rebalance decision and execution\<close>

definition shouldRebalance :: "ProjectMetrics \<Rightarrow> bool" where
  "shouldRebalance metric \<longleftrightarrow>
     metric_direction metric \<noteq> none \<and>
     metric_deviationBps metric \<ge> DEFAULT_DEVIATION_THRESHOLD_BPS"

text \<open>
  The state of a run: the \<open>actions\<close> array, the requests handed to the dispatcher so
  far (\<open>calls\<close>, in order, whether or not the call succeeded) and the world they left.
  A step returns \<open>None\<close> when it completes and the thrown value when it throws.
\<close>

record 'w run_state =
  actions :: "ActionRecord list"
  calls :: "contract_call list"
  world :: 'w

definition and_then ::
  "thrown option \<times> 's \<Rightarrow> ('s \<Rightarrow> thrown option \<times> 's) \<Rightarrow> thrown option \<times> 's" where
  "and_then r f = (case r of (Some e, s) \<Rightarrow> (Some e, s) | (None, s) \<Rightarrow> f s)"

text \<open>
  One \<open>await contractCall(\<dots>)\<close> followed by \<open>recordAction\<close> with the hash returned: when
  the call throws, nothing is recorded.
\<close>

definition call_and_record ::
  "'w chain \<Rightarrow> contract_call \<Rightarrow> string \<Rightarrow> string option \<Rightarrow> string \<Rightarrow> 'w run_state \<Rightarrow>
     thrown option \<times> 'w run_state" where
  "call_and_record chain request project_address token_id action st =
     (case contractCall chain (world st) request of
        (Inl e, w) \<Rightarrow> (Some e, st\<lparr>calls := calls st @ [request], world := w\<rparr>)
      | (Inr tx, w) \<Rightarrow>
          (None, st\<lparr>actions := actions st @
                        [\<lparr>action_projectAddress = project_address, action_tokenId = token_id,
                          action_name = action, txHash = tx\<rparr>],
                     calls := calls st @ [request], world := w\<rparr>))"

definition approve_if_needed ::
  "'w chain \<Rightarrow> NetworkConfig \<Rightarrow> string \<Rightarrow> string \<Rightarrow> ProjectMetrics \<Rightarrow> PositionInfo \<Rightarrow>
     string \<Rightarrow> string \<Rightarrow> int \<Rightarrow> int \<Rightarrow> 'w run_state \<Rightarrow> thrown option \<times> 'w run_state" where
  "approve_if_needed chain networkConfig pkpPublicKey pkpAddress metric position token action
       balance allowance st =
     (if balance > 0 \<and> allowance < balance then
        call_and_record chain
          \<lparr>call_pkpPublicKey = pkpPublicKey, callerAddress = pkpAddress,
           contractAddress = token, functionName = ''approve'',
           call_args = ApproveArgs (positionManager networkConfig) balance\<rparr>
          (projectAddress (project metric)) (Some (tokenId position)) action st
      else (None, st))"

text \<open>The body of the loop over the positions of an eligible project.\<close>

definition rebalance_position ::
  "'w chain \<Rightarrow> NetworkConfig \<Rightarrow> string \<Rightarrow> string \<Rightarrow> ProjectMetrics \<Rightarrow> PositionInfo \<Rightarrow>
     'w run_state \<Rightarrow> thrown option \<times> 'w run_state" where
  "rebalance_position chain networkConfig pkpPublicKey pkpAddress metric position st =
     (if liquidity position = 0 then (None, st)
      else
        (case bn_div (liquidity position * DEFAULT_REBALANCE_LIQUIDITY_BPS) 10000 of
           Inl e \<Rightarrow> (Some e, st)
         | Inr liquidityToUse \<Rightarrow>
             if liquidityToUse = 0 \<and> metric_direction metric = decrease then (None, st)
             else if metric_direction metric = decrease then
               and_then
                 (call_and_record chain
                    \<lparr>call_pkpPublicKey = pkpPublicKey, callerAddress = pkpAddress,
                     contractAddress = positionManager networkConfig,
                     functionName = ''decreaseLiquidity'',
                     call_args = DecreaseLiquidityArgs (tokenId position)
                       (if liquidityToUse = 0 then liquidity position else liquidityToUse)
                       0 0 (Date_now chain (world st) div 1000 + 900)\<rparr>
                    (projectAddress (project metric)) (Some (tokenId position))
                    ''decreaseLiquidity'' st)
                 (call_and_record chain
                    \<lparr>call_pkpPublicKey = pkpPublicKey, callerAddress = pkpAddress,
                     contractAddress = positionManager networkConfig,
                     functionName = ''collect'',
                     call_args = CollectArgs (tokenId position) pkpAddress MAX_UINT128 MAX_UINT128\<rparr>
                    (projectAddress (project metric)) (Some (tokenId position)) ''collect'')
             else if metric_direction metric = increase then
               (case erc20_balanceOf chain (world st) (token0 position) pkpAddress of
                  Inl e \<Rightarrow> (Some e, st)
                | Inr balance0 \<Rightarrow>
               (case erc20_balanceOf chain (world st) (token1 position) pkpAddress of
                  Inl e \<Rightarrow> (Some e, st)
                | Inr balance1 \<Rightarrow>
               (case erc20_allowance chain (world st) (token0 position) pkpAddress
                       (positionManager networkConfig) of
                  Inl e \<Rightarrow> (Some e, st)
                | Inr allowance0 \<Rightarrow>
               (case erc20_allowance chain (world st) (token1 position) pkpAddress
                       (positionManager networkConfig) of
                  Inl e \<Rightarrow> (Some e, st)
                | Inr allowance1 \<Rightarrow>
                    if balance0 = 0 \<and> balance1 = 0 then (None, st)
                    else
                      and_then
                        (and_then
                           (approve_if_needed chain networkConfig pkpPublicKey pkpAddress metric
                              position (token0 position) ''approveToken0'' balance0 allowance0 st)
                           (approve_if_needed chain networkConfig pkpPublicKey pkpAddress metric
                              position (token1 position) ''approveToken1'' balance1 allowance1))
                        (\<lambda>st'. call_and_record chain
                           \<lparr>call_pkpPublicKey = pkpPublicKey, callerAddress = pkpAddress,
                            contractAddress = positionManager networkConfig,
                            functionName = ''increaseLiquidity'',
                            call_args = IncreaseLiquidityArgs (tokenId position) balance0 balance1
                              0 0 (Date_now chain (world st') div 1000 + 900)\<rparr>
                           (projectAddress (project metric)) (Some (tokenId position))
                           ''increaseLiquidity'' st')))))
             else (None, st)))"

fun rebalance_positions ::
  "'w chain \<Rightarrow> NetworkConfig \<Rightarrow> string \<Rightarrow> string \<Rightarrow> ProjectMetrics \<Rightarrow> PositionInfo list \<Rightarrow>
     'w run_state \<Rightarrow> thrown option \<times> 'w run_state" where
  "rebalance_positions chain networkConfig pkpPublicKey pkpAddress metric [] st = (None, st)"
| "rebalance_positions chain networkConfig pkpPublicKey pkpAddress metric (position # rest) st =
     and_then (rebalance_position chain networkConfig pkpPublicKey pkpAddress metric position st)
       (rebalance_positions chain networkConfig pkpPublicKey pkpAddress metric rest)"

text \<open>The body of the loop over the projects.\<close>

definition rebalance_project ::
  "'w chain \<Rightarrow> NetworkConfig \<Rightarrow> string \<Rightarrow> string \<Rightarrow> ProjectMetrics \<Rightarrow> 'w run_state \<Rightarrow>
     thrown option \<times> 'w run_state" where
  "rebalance_project chain networkConfig pkpPublicKey pkpAddress metric st =
     (if \<not> shouldRebalance metric then (None, st)
      else
        and_then
          (call_and_record chain
             \<lparr>call_pkpPublicKey = pkpPublicKey, callerAddress = pkpAddress,
              contractAddress = projectAddress (project metric),
              functionName = ''accrueInterest'', call_args = NoArgs\<rparr>
             (projectAddress (project metric)) None ''accrueInterest'' st)
          (rebalance_positions chain networkConfig pkpPublicKey pkpAddress metric
             (positions metric)))"

fun rebalance_all ::
  "'w chain \<Rightarrow> NetworkConfig \<Rightarrow> string \<Rightarrow> string \<Rightarrow> ProjectMetrics list \<Rightarrow> 'w run_state \<Rightarrow>
     thrown option \<times> 'w run_state" where
  "rebalance_all chain networkConfig pkpPublicKey pkpAddress [] st = (None, st)"
| "rebalance_all chain networkConfig pkpPublicKey pkpAddress (metric # rest) st =
     and_then (rebalance_project chain networkConfig pkpPublicKey pkpAddress metric st)
       (rebalance_all chain networkConfig pkpPublicKey pkpAddress rest)"

section \<open>Reports, precheck and execute\<close>

text \<open>
  The reports. Numbers that the source renders as decimal strings, and the deviation that
  it converts to a host number, are kept as the integers they stand for.
\<close>

record project_report =
  r_projectAddress :: string
  r_tokenAddress :: string
  r_pyusdAddress :: string
  r_poolAddress :: "string option"
  r_navPerShare :: int
  r_targetPoolPrice :: int
  r_currentPoolPrice :: int
  r_poolLiquidity :: int
  r_totalPositionLiquidity :: int
  r_deviationBps :: int
  r_direction :: Direction
  r_positionCount :: nat
  r_positionTokenIds :: "string list"

definition summarizeMetric :: "ProjectMetrics \<Rightarrow> project_report" where
  "summarizeMetric metric =
     \<lparr>r_projectAddress = projectAddress (project metric),
      r_tokenAddress = tokenAddress (project metric),
      r_pyusdAddress = pyusdAddress (project metric),
      r_poolAddress = poolAddress metric,
      r_navPerShare = navPerShare metric,
      r_targetPoolPrice = targetPoolPrice metric,
      r_currentPoolPrice = currentPoolPrice metric,
      r_poolLiquidity = poolLiquidity metric,
      r_totalPositionLiquidity = foldl (\<lambda>acc position. acc + liquidity position) 0 (positions metric),
      r_deviationBps = metric_deviationBps metric,
      r_direction = metric_direction metric,
      r_positionCount = length (positions metric),
      r_positionTokenIds = map tokenId (positions metric)\<rparr>"

record executed_project_report =
  summary :: project_report
  report_actions :: "ActionRecord list"

record precheck_success =
  p_registryAddress :: string
  p_projectCount :: nat
  p_trackedPositions :: nat
  p_backfilledPositions :: nat
  p_projects :: "project_report list"

record execute_success =
  e_registryAddress :: string
  e_totalActions :: nat
  e_backfilledPositions :: nat
  e_projects :: "executed_project_report list"

record failure =
  fail_reason :: known_error
  fail_error :: string

datatype 'a response = Succeed 'a | Fail failure

record abilityParams =
  registryAddress :: string
  rpcUrl :: "string option"

text \<open>
  \<open>delegation?.delegatorPkpInfo?.ethAddress\<close> and \<open>\<dots>?.publicKey\<close>; a missing value and
  the empty string are both falsy.
\<close>

record delegation =
  ethAddress :: "string option"
  publicKey :: "string option"

definition truthy :: "string option \<Rightarrow> string option" where
  "truthy v = (case v of None \<Rightarrow> None | Some s \<Rightarrow> if s = [] then None else Some s)"

text \<open>
  The \<open>try\<close> block of \<open>precheck\<close>. With \<open>ENABLE_BACKFILL\<close> false the backfill is never
  called and \<open>backfilledPositions\<close> stays the empty set.
\<close>

definition precheck_try :: "'w chain \<Rightarrow> abilityParams \<Rightarrow> delegation \<Rightarrow> thrown + precheck_success" where
  "precheck_try chain params deleg =
     (case discoverNetworkConfig chain (rpcUrl params) of
        Inl e \<Rightarrow> Inl e
      | Inr networkConfig \<Rightarrow>
     (case discoverProjects chain (registryAddress params) of
        Inl e \<Rightarrow> Inl e
      | Inr projects \<Rightarrow>
     (case fetch_all_metrics chain networkConfig projects of
        Inl e \<Rightarrow> Inl e
      | Inr metrics \<Rightarrow>
     (case (case truthy (ethAddress deleg) of
              None \<Rightarrow> Inr []
            | Some pkpAddress \<Rightarrow> fetchOwnedPositions chain networkConfig pkpAddress) of
        Inl e \<Rightarrow> Inl e
      | Inr ownedPositions \<Rightarrow>
          let attached = attachPositionsToProjects metrics ownedPositions
          in Inr \<lparr>p_registryAddress = registryAddress params,
                  p_projectCount = length attached,
                  p_trackedPositions = length ownedPositions,
                  p_backfilledPositions = 0,
                  p_projects = map summarizeMetric attached\<rparr>))))"

definition precheck :: "'w chain \<Rightarrow> abilityParams \<Rightarrow> delegation \<Rightarrow> precheck_success response" where
  "precheck chain params deleg =
     (if \<not> isAddress chain (registryAddress params) then
        Fail \<lparr>fail_reason = INVALID_REGISTRY_ADDRESS,
              fail_error = ''Invalid registry address: '' @ registryAddress params\<rparr>
      else
        (case precheck_try chain params deleg of
           Inr report \<Rightarrow> Succeed report
         | Inl error \<Rightarrow>
             Fail \<lparr>fail_reason =
                     (if error_message_includes error ''Target pool price'' then NAV_TARGET_ZERO
                      else PROVIDER_ERROR),
                   fail_error = error_text error\<rparr>))"

text \<open>The \<open>try\<close> block of \<open>execute\<close>, started in the world \<open>w\<close>.\<close>

definition execute_try ::
  "'w chain \<Rightarrow> 'w \<Rightarrow> abilityParams \<Rightarrow> delegation \<Rightarrow> thrown + execute_success" where
  "execute_try chain w params deleg =
     (if \<not> isAddress chain (registryAddress params) then
        Inl (new_Error (''Invalid registry address: '' @ registryAddress params))
      else
     (case discoverNetworkConfig chain (rpcUrl params) of
        Inl e \<Rightarrow> Inl e
      | Inr networkConfig \<Rightarrow>
     (case discoverProjects chain (registryAddress params) of
        Inl e \<Rightarrow> Inl e
      | Inr projects \<Rightarrow>
     (case fetch_all_metrics chain networkConfig projects of
        Inl e \<Rightarrow> Inl e
      | Inr metrics \<Rightarrow>
     (case (truthy (publicKey deleg), truthy (ethAddress deleg)) of
        (Some pkpPublicKey, Some pkpAddress) \<Rightarrow>
          (case fetchOwnedPositions chain networkConfig pkpAddress of
             Inl e \<Rightarrow> Inl e
           | Inr ownedPositions \<Rightarrow>
               let attached = attachPositionsToProjects metrics ownedPositions
               in (case rebalance_all chain networkConfig pkpPublicKey pkpAddress attached
                          \<lparr>actions = [], calls = [], world = w\<rparr> of
                     (Some e, st) \<Rightarrow> Inl e
                   | (None, st) \<Rightarrow>
                       Inr \<lparr>e_registryAddress = registryAddress params,
                            e_totalActions = length (actions st),
                            e_backfilledPositions = 0,
                            e_projects =
                              map (\<lambda>metric.
                                     \<lparr>summary = summarizeMetric metric,
                                      report_actions =
                                        filter (\<lambda>action. action_projectAddress action =
                                                   projectAddress (project metric))
                                          (actions st)\<rparr>)
                                attached\<rparr>))
      | _ \<Rightarrow> Inl (new_Error ''Delegation context missing PKP information''))))))"

definition execute ::
  "'w chain \<Rightarrow> 'w \<Rightarrow> abilityParams \<Rightarrow> delegation \<Rightarrow> execute_success response" where
  "execute chain w params deleg =
     (case execute_try chain w params deleg of
        Inr report \<Rightarrow> Succeed report
      | Inl error \<Rightarrow>
          Fail \<lparr>fail_reason =
                  (if error_message_includes error ''registry address'' then INVALID_REGISTRY_ADDRESS
                   else PROVIDER_ERROR),
                fail_error = error_text error\<rparr>)"

section \<open>Order of the recorded actions\<close>

text \<open>
  Every \<open>decreaseLiquidity\<close> record is immediately followed by the \<open>collect\<close> record of
  the same position and project.
\<close>

definition collect_follows_decrease :: "ActionRecord list \<Rightarrow> bool" where
  "collect_follows_decrease acts \<longleftrightarrow>
     (\<forall>i < length acts. action_name (acts ! i) = ''decreaseLiquidity'' \<longrightarrow>
        Suc i < length acts \<and>
        action_name (acts ! Suc i) = ''collect'' \<and>
        action_tokenId (acts ! Suc i) = action_tokenId (acts ! i) \<and>
        action_projectAddress (acts ! Suc i) = action_projectAddress (acts ! i))"

text \<open>
  Every approval record is followed, at most one record later, by the
  \<open>increaseLiquidity\<close> record of the same position and project.
\<close>

definition approvals_precede_increase :: "ActionRecord list \<Rightarrow> bool" where
  "approvals_precede_increase acts \<longleftrightarrow>
     (\<forall>i < length acts.
        action_name (acts ! i) = ''approveToken0'' \<or> action_name (acts ! i) = ''approveToken1'' \<longrightarrow>
        (\<exists>j. i < j \<and> j \<le> i + 2 \<and> j < length acts \<and>
             action_name (acts ! j) = ''increaseLiquidity'' \<and>
             action_tokenId (acts ! j) = action_tokenId (acts ! i) \<and>
             action_projectAddress (acts ! j) = action_projectAddress (acts ! i)))"

text \<open>The records that the loop body can leave for one position, by their names.\<close>

definition position_block :: "string \<Rightarrow> string \<Rightarrow> ActionRecord list \<Rightarrow> bool" where
  "position_block addr tid blk \<longleftrightarrow>
     (\<forall>a \<in> set blk. action_projectAddress a = addr \<and> action_tokenId a = Some tid) \<and>
     map action_name blk \<in>
       {[], [''decreaseLiquidity'', ''collect''], [''increaseLiquidity''],
        [''approveToken0'', ''increaseLiquidity''], [''approveToken1'', ''increaseLiquidity''],
        [''approveToken0'', ''approveToken1'', ''increaseLiquidity'']}"

text \<open>The records of the positions of one project: none of them is the accrual.\<close>

definition position_actions :: "ProjectMetrics \<Rightarrow> ActionRecord list \<Rightarrow> bool" where
  "position_actions metric blk \<longleftrightarrow>
     (\<forall>a \<in> set blk.
        action_projectAddress a = projectAddress (project metric) \<and>
        action_name a \<noteq> ''accrueInterest'' \<and>
        (\<exists>p \<in> set (positions metric). action_tokenId a = Some (tokenId p)))"

text \<open>
  The records of one project in a completed run: none when the project is not eligible,
  else the accrual record followed by records of its positions, in the order above.
\<close>

definition project_block :: "ProjectMetrics \<Rightarrow> ActionRecord list \<Rightarrow> bool" where
  "project_block metric blk \<longleftrightarrow>
     (if shouldRebalance metric then
        (\<exists>tx rest.
           blk = \<lparr>action_projectAddress = projectAddress (project metric), action_tokenId = None,
                  action_name = ''accrueInterest'', txHash = tx\<rparr> # rest \<and>
           position_actions metric rest)
      else blk = []) \<and>
     collect_follows_decrease blk \<and> approvals_precede_increase blk"

section \<open>A small chain for the examples\<close>

text \<open>
  A registry with two projects, created in blocks 3 and 14 and read at block 25; both pools
  stand at the price \<open>10^18\<close>; the two target prices are parameters. The wallet owns
  three positions: one for each project (the second with its tokens in the other order
  and in upper case) and one for a token pair of no project. The dispatcher accepts every
  call and numbers the transaction hashes.
\<close>

definition demo_log :: "event list" where
  "demo_log =
     [\<lparr>blockNumber = 3,
        args = Some \<lparr>args_0 = Some ''0xA1'', args_project = Some ''0xA1'', args_token = Some ''0xAa''\<rparr>\<rparr>,
      \<lparr>blockNumber = 14,
        args = Some \<lparr>args_0 = Some ''0xB1'', args_project = Some ''0xB1'', args_token = Some ''0xBb''\<rparr>\<rparr>]"

definition demo_chain :: "int \<Rightarrow> int \<Rightarrow> nat chain" where
  "demo_chain targetA targetB =
     \<lparr>isAddress = (\<lambda>a. a = ''0xRegistry''),
      getNetwork = Inr 1,
      registry_at = (\<lambda>a. registry_of demo_log 25),
      pyusd = (\<lambda>p. Inr ''0xEe''),
      getNAVPerShare = (\<lambda>p. Inr (10 ^ 18)),
      getTargetPoolPrice = (\<lambda>p. Inr (if p = ''0xA1'' then targetA else targetB)),
      getPool = (\<lambda>factory tokenA tokenB fee. Inr (''0xPool'' @ tokenA)),
      slot0 = (\<lambda>pool. Inr (2 ^ 96)),
      pool_liquidity = (\<lambda>pool. Inr 5000),
      nft_balanceOf = (\<lambda>manager owner. Inr 3),
      tokenOfOwnerByIndex = (\<lambda>manager owner index. Inr (7 + int index)),
      nft_positions = (\<lambda>manager token_id.
         Inr (if token_id = 7 then
                \<lparr>pos_token0 = ''0xAa'', pos_token1 = ''0xEe'', pos_fee = 3000,
                 pos_tickLower = -60, pos_tickUpper = 60, pos_liquidity = 1000\<rparr>
              else if token_id = 8 then
                \<lparr>pos_token0 = ''0xEE'', pos_token1 = ''0xBB'', pos_fee = 3000,
                 pos_tickLower = -60, pos_tickUpper = 60, pos_liquidity = 4000\<rparr>
              else
                \<lparr>pos_token0 = ''0xCc'', pos_token1 = ''0xEe'', pos_fee = 3000,
                 pos_tickLower = -60, pos_tickUpper = 60, pos_liquidity = 500\<rparr>)),
      erc20_balanceOf = (\<lambda>w token owner. Inr 10),
      erc20_allowance = (\<lambda>w token owner spender. Inr 0),
      contractCall = (\<lambda>w request. (Inr (''0xtx'' @ string_of_nat w), Suc w)),
      Date_now = (\<lambda>w. 1700000000000 + 1000 * int w)\<rparr>"

definition demo_params :: abilityParams where
  "demo_params = \<lparr>registryAddress = ''0xRegistry'', rpcUrl = Some ''https://rpc.example''\<rparr>"

definition demo_delegation :: delegation where
  "demo_delegation = \<lparr>ethAddress = Some ''0xPKP'', publicKey = Some ''0x04Key''\<rparr>"

definition demo_config :: NetworkConfig where
  "demo_config = \<lparr>uniswapFactory = ''0xFactory'', positionManager = ''0xManager''\<rparr>"

definition demo_position :: "string \<Rightarrow> string \<Rightarrow> string \<Rightarrow> int \<Rightarrow> PositionInfo" where
  "demo_position tid t0 t1 liq =
     \<lparr>tokenId = tid, token0 = t0, token1 = t1, fee = 3000, liquidity = liq,
      tickLower = -60, tickUpper = 60\<rparr>"

definition demo_metric ::
  "string \<Rightarrow> string \<Rightarrow> int \<Rightarrow> Direction \<Rightarrow> PositionInfo list \<Rightarrow> ProjectMetrics" where
  "demo_metric addr tok bps dir ps =
     \<lparr>project = \<lparr>projectAddress = addr, tokenAddress = tok, pyusdAddress = ''0xEe''\<rparr>,
      poolAddress = Some (''0xPool'' @ tok),
      navPerShare = 10 ^ 18,
      targetPoolPrice = 10 ^ 18,
      currentPoolPrice = 10 ^ 18,
      poolLiquidity = 5000,
      metric_deviationBps = bps,
      metric_direction = dir,
      positions = ps\<rparr>"

definition demo_metrics :: "ProjectMetrics list" where
  "demo_metrics =
     [demo_metric ''0xA1'' ''0xAa'' 1111 decrease [demo_position ''7'' ''0xAa'' ''0xEe'' 1000],
      demo_metric ''0xB1'' ''0xBb'' 5000 increase [demo_position ''8'' ''0xEE'' ''0xBB'' 4000]]"

definition demo_run :: "thrown option \<times> nat run_state" where
  "demo_run =
     rebalance_all (demo_chain 0 0) demo_config ''0x04Key'' ''0xPKP'' demo_metrics
       \<lparr>actions = [], calls = [], world = 0\<rparr>"

text \<open>
  The report of \<open>execute\<close> on that chain with the first target 50 basis points above the
  pool price and the second 1111 basis points below it.
\<close>

definition demo_report :: execute_success where
  "demo_report =
     \<lparr>e_registryAddress = ''0xRegistry'', e_totalActions = 3, e_backfilledPositions = 0,
      e_projects =
        [\<lparr>summary =
            \<lparr>r_projectAddress = ''0xA1'', r_tokenAddress = ''0xAa'', r_pyusdAddress = ''0xEe'',
             r_poolAddress = Some ''0xPool0xAa'', r_navPerShare = 1000000000000000000,
             r_targetPoolPrice = 1005030000000000000, r_currentPoolPrice = 1000000000000000000,
             r_poolLiquidity = 5000, r_totalPositionLiquidity = 1000,
             r_deviationBps = 50, r_direction = increase,
             r_positionCount = 1, r_positionTokenIds = [''7'']\<rparr>,
          report_actions = []\<rparr>,
         \<lparr>summary =
            \<lparr>r_projectAddress = ''0xB1'', r_tokenAddress = ''0xBb'', r_pyusdAddress = ''0xEe'',
             r_poolAddress = Some ''0xPool0xBb'', r_navPerShare = 1000000000000000000,
             r_targetPoolPrice = 900000000000000000, r_currentPoolPrice = 1000000000000000000,
             r_poolLiquidity = 5000, r_totalPositionLiquidity = 4000,
             r_deviationBps = 1111, r_direction = decrease,
             r_positionCount = 1, r_positionTokenIds = [''8'']\<rparr>,
          report_actions =
            [\<lparr>action_projectAddress = ''0xB1'', action_tokenId = None,
              action_name = ''accrueInterest'', txHash = ''0xtx0''\<rparr>,
             \<lparr>action_projectAddress = ''0xB1'', action_tokenId = Some ''8'',
              action_name = ''decreaseLiquidity'', txHash = ''0xtx1''\<rparr>,
             \<lparr>action_projectAddress = ''0xB1'', action_tokenId = Some ''8'',
              action_name = ''collect'', txHash = ''0xtx2''\<rparr>]\<rparr>]\<rparr>"

text \<open>
  The three positions of the wallet, the two projects before matching, and the run of the
  rebalance loop over the projects after matching.
\<close>

definition demo_positions :: "PositionInfo list" where
  "demo_positions =
     [demo_position ''7'' ''0xAa'' ''0xEe'' 1000,
      demo_position ''8'' ''0xEE'' ''0xBB'' 4000,
      demo_position ''9'' ''0xCc'' ''0xEe'' 500]"

definition demo_bare_metrics :: "ProjectMetrics list" where
  "demo_bare_metrics =
     [demo_metric ''0xA1'' ''0xAa'' 1111 decrease [],
      demo_metric ''0xB1'' ''0xBb'' 5000 increase []]"

definition demo_match_run :: "thrown option \<times> nat run_state" where
  "demo_match_run =
     rebalance_all (demo_chain 0 0) demo_config ''0x04Key'' ''0xPKP''
       (attachPositionsToProjects demo_bare_metrics demo_positions)
       \<lparr>actions = [], calls = [], world = 0\<rparr>"

text \<open>
  Two logs for the discovery: one in which the first project is recorded a second time
  (in block 20, with its address in lower case) by a registry that counts 2 projects, and
  one with three projects, two of them created in the same block.
\<close>

definition demo_repeat_log :: "event list" where
  "demo_repeat_log =
     [\<lparr>blockNumber = 3,
        args = Some \<lparr>args_0 = Some ''0xAa'', args_project = Some ''0xAa'', args_token = Some ''0x01''\<rparr>\<rparr>,
      \<lparr>blockNumber = 14,
        args = Some \<lparr>args_0 = Some ''0xBb'', args_project = Some ''0xBb'', args_token = Some ''0x02''\<rparr>\<rparr>,
      \<lparr>blockNumber = 20,
        args = Some \<lparr>args_0 = Some ''0xaa'', args_project = Some ''0xaa'', args_token = Some ''0x01''\<rparr>\<rparr>]"

definition demo_repeat_registry :: registry_view where
  "demo_repeat_registry = (registry_of demo_repeat_log 25)\<lparr>projectCount := Inr 2\<rparr>"

definition demo_ordered_log :: "event list" where
  "demo_ordered_log =
     [\<lparr>blockNumber = 3,
        args = Some \<lparr>args_0 = Some ''0xAa'', args_project = Some ''0xAa'', args_token = Some ''0x01''\<rparr>\<rparr>,
      \<lparr>blockNumber = 14,
        args = Some \<lparr>args_0 = Some ''0xBb'', args_project = Some ''0xBb'', args_token = Some ''0x02''\<rparr>\<rparr>,
      \<lparr>blockNumber = 14,
        args = Some \<lparr>args_0 = Some ''0xCc'', args_project = Some ''0xCc'', args_token = Some ''0x03''\<rparr>\<rparr>]"

section \<open>Properties of the deviation computation\<close>

lemma bn_div_pos: "0 \<le> a \<Longrightarrow> 0 < b \<Longrightarrow> bn_div a b = Inr (a div b)"
  by (cases "a = 0") (simp_all add: bn_div_def)

text \<open>
  C4. For every current price and every nonzero target price (prices are unsigned
  quantities, so a nonzero target is a positive one), the deviation computation returns
  \<open>deviationBps = floor(|current - target| * 10000 / target)\<close>, with direction
  decrease if current > target, increase if current < target and none if they are equal.
\<close>

theorem calculateDeviation_value:
  assumes "0 < targetPrice"
  shows "calculateDeviation currentPrice targetPrice =
           Inr \<lparr>deviation = \<bar>currentPrice - targetPrice\<bar>,
                deviationBps = (\<bar>currentPrice - targetPrice\<bar> * 10000) div targetPrice,
                direction = (if currentPrice > targetPrice then decrease
                             else if currentPrice < targetPrice then increase else none)\<rparr>"
proof (cases "currentPrice = targetPrice")
  case True
  then show ?thesis using assms by (simp add: calculateDeviation_def)
next
  case False
  let ?dev = "if currentPrice > targetPrice then currentPrice - targetPrice
              else targetPrice - currentPrice"
  have dev: "?dev = \<bar>currentPrice - targetPrice\<bar>" by simp
  have "0 \<le> ?dev * 10000" by simp
  then have "bn_div (?dev * 10000) targetPrice = Inr ((?dev * 10000) div targetPrice)"
    using assms by (rule bn_div_pos)
  then show ?thesis
    using False assms unfolding calculateDeviation_def Let_def dev by auto
qed

theorem calculateDeviation_value_witness:
  "(0::int) < 2000 \<and>
   calculateDeviation 1950 2000 = Inr \<lparr>deviation = 50, deviationBps = 250, direction = increase\<rparr>"
  using calculateDeviation_value [of 2000 1950] by simp

text \<open>
  C10. The deviation computation is total: for every pair of inputs it returns a result
  and never the division-by-zero failure; with a zero target it returns
  \<open>deviationBps = 0\<close> and direction none, so the division is reached with a nonzero
  target only.
\<close>

theorem calculateDeviation_total:
  "(\<exists>r. calculateDeviation currentPrice targetPrice = Inr r) \<and>
   calculateDeviation currentPrice 0 = Inr \<lparr>deviation = 0, deviationBps = 0, direction = none\<rparr>"
  by (simp add: calculateDeviation_def bn_div_def Let_def)

text \<open>
  C3, as amended. For every pair of positive prices, exchanging the two arguments of the
  deviation computation flips the direction between increase and decrease and leaves the
  absolute deviation unchanged; the deviation in basis points is taken relative to the
  second argument in both calls, so it is \<open>deviation * 10000 div target\<close> before the
  exchange and \<open>deviation * 10000 div current\<close> after it; and the direction is none
  exactly when the two prices are equal.
\<close>

theorem calculateDeviation_swap:
  assumes "0 < currentPrice" and "0 < targetPrice"
  shows "\<exists>r r'. calculateDeviation currentPrice targetPrice = Inr r \<and>
                 calculateDeviation targetPrice currentPrice = Inr r' \<and>
                 direction r' = flip (direction r) \<and>
                 deviation r' = deviation r \<and>
                 deviationBps r = (deviation r * 10000) div targetPrice \<and>
                 deviationBps r' = (deviation r * 10000) div currentPrice \<and>
                 (direction r = none \<longleftrightarrow> currentPrice = targetPrice)"
proof -
  have swap: "\<bar>targetPrice - currentPrice\<bar> = \<bar>currentPrice - targetPrice\<bar>" by simp
  show ?thesis
    unfolding calculateDeviation_value [OF assms(2), of currentPrice]
      calculateDeviation_value [OF assms(1), of targetPrice] swap
    by auto
qed

theorem calculateDeviation_swap_witness:
  "(0::int) < 1950 \<and> (0::int) < 2000 \<and>
   (\<exists>r r'. calculateDeviation 1950 2000 = Inr r \<and> calculateDeviation 2000 1950 = Inr r' \<and>
            direction r' = flip (direction r) \<and> deviation r' = deviation r \<and>
            deviationBps r = (deviation r * 10000) div 2000 \<and>
            deviationBps r' = (deviation r * 10000) div 1950 \<and>
            (direction r = none \<longleftrightarrow> (1950::int) = 2000))"
  using calculateDeviation_swap [of 1950 2000] by simp

text \<open>
  The claim as first stated (the deviation in basis points is unchanged by the exchange)
  fails: 1950 against a target of 2000 is 250 basis points, 2000 against a target of 1950
  is 256.
\<close>

theorem calculateDeviation_swap_counterexample:
  "calculateDeviation 1950 2000 = Inr \<lparr>deviation = 50, deviationBps = 250, direction = increase\<rparr> \<and>
   calculateDeviation 2000 1950 = Inr \<lparr>deviation = 50, deviationBps = 256, direction = decrease\<rparr> \<and>
   (250::int) \<noteq> 256"
  by (simp add: calculateDeviation_def bn_div_def)

section \<open>Properties of the retry wrapper\<close>

lemma rpc_read_outcome: "rpc_read r = r"
  by (cases r) (simp_all add: rpc_read_def withRpcRetry_def RPC_MAX_RETRIES_def)

lemma withRpcRetry_loop_attempts:
  "attempt \<le> RPC_MAX_RETRIES \<Longrightarrow>
   attempts (withRpcRetry_loop operation attempt lastError ds s) \<le> RPC_MAX_RETRIES"
proof (induction operation attempt lastError ds s rule: withRpcRetry_loop.induct)
  case (1 operation attempt lastError ds s)
  show ?case
  proof (cases "attempt < RPC_MAX_RETRIES")
    case False
    with "1.prems" show ?thesis by simp
  next
    case True
    obtain r s' where op: "operation s = (r, s')" by (cases "operation s")
    show ?thesis
    proof (cases r)
      case (Inr v)
      with True op show ?thesis by simp
    next
      case (Inl error)
      show ?thesis
      proof (cases "\<not> isRetryableRpcError error \<or> attempt + 1 = RPC_MAX_RETRIES")
        case stop: True
        with True op Inl show ?thesis by auto
      next
        case go: False
        have "attempts (withRpcRetry_loop operation (attempt + 1) (Some error)
                 (ds @ [RPC_RETRY_BASE_DELAY_MS * (attempt + 1)]) s') \<le> RPC_MAX_RETRIES"
          using "1.IH" [OF True op [symmetric] Inl go] True by simp
        with True op Inl go show ?thesis by simp
      qed
    qed
  qed
qed

lemma isRetryableRpcError_iff:
  "isRetryableRpcError e \<longleftrightarrow>
     (\<exists>ie msg c st. e = JsObject ie msg c st \<and>
        (c = Some ''SERVER_ERROR'' \<or> c = Some ''NETWORK_ERROR'' \<or> (\<exists>n. st = Some n \<and> n \<ge> 500)))"
  by (cases e) (auto split: option.splits)

text \<open>
  C5. The retry wrapper calls the operation at most 3 times. An operation that fails
  twice with a retryable error and succeeds at the third call returns the success value
  after exactly two delays, of 1000 and 2000 milliseconds (base times the attempt number).
  An operation that fails with a non-retryable error returns that error after one call and
  no delay. A failure is retryable iff it is an object with code SERVER_ERROR or
  NETWORK_ERROR or with a status of at least 500.
\<close>

theorem withRpcRetry_contract:
  "attempts (withRpcRetry operation s0) \<le> 3 \<and>
   (operation s0 = (Inl e1, s1) \<and> isRetryableRpcError e1 \<and>
    operation s1 = (Inl e2, s2) \<and> isRetryableRpcError e2 \<and>
    operation s2 = (Inr v, s3) \<longrightarrow>
      withRpcRetry operation s0 =
        \<lparr>outcome = Inr v, delays = [1000, 2000], attempts = 3, final = s3\<rparr>) \<and>
   (operation' t0 = (Inl e, t1) \<and> \<not> isRetryableRpcError e \<longrightarrow>
      withRpcRetry operation' t0 = \<lparr>outcome = Inl e, delays = [], attempts = 1, final = t1\<rparr>) \<and>
   (isRetryableRpcError e' \<longleftrightarrow>
      (\<exists>ie msg c st. e' = JsObject ie msg c st \<and>
         (c = Some ''SERVER_ERROR'' \<or> c = Some ''NETWORK_ERROR'' \<or> (\<exists>n. st = Some n \<and> n \<ge> 500))))"
proof (intro conjI impI)
  show "attempts (withRpcRetry operation s0) \<le> 3"
    using withRpcRetry_loop_attempts [of 0 operation None "[]" s0]
    by (simp add: withRpcRetry_def RPC_MAX_RETRIES_def)
next
  assume "operation s0 = (Inl e1, s1) \<and> isRetryableRpcError e1 \<and>
    operation s1 = (Inl e2, s2) \<and> isRetryableRpcError e2 \<and> operation s2 = (Inr v, s3)"
  then show "withRpcRetry operation s0 =
        \<lparr>outcome = Inr v, delays = [1000, 2000], attempts = 3, final = s3\<rparr>"
    by (simp add: withRpcRetry_def RPC_MAX_RETRIES_def RPC_RETRY_BASE_DELAY_MS_def)
next
  assume "operation' t0 = (Inl e, t1) \<and> \<not> isRetryableRpcError e"
  then show "withRpcRetry operation' t0 = \<lparr>outcome = Inl e, delays = [], attempts = 1, final = t1\<rparr>"
    by (simp add: withRpcRetry_def RPC_MAX_RETRIES_def)
next
  show "isRetryableRpcError e' \<longleftrightarrow>
      (\<exists>ie msg c st. e' = JsObject ie msg c st \<and>
         (c = Some ''SERVER_ERROR'' \<or> c = Some ''NETWORK_ERROR'' \<or> (\<exists>n. st = Some n \<and> n \<ge> 500)))"
    by (rule isRetryableRpcError_iff)
qed

theorem withRpcRetry_contract_witness:
  "attempts (withRpcRetry
      (\<lambda>k::nat. (if k < 2 then Inl (JsObject True ''bad gateway'' (Some ''SERVER_ERROR'') (Some 502))
                  else Inr (42::int), Suc k)) 0) \<le> 3 \<and>
   withRpcRetry
      (\<lambda>k::nat. (if k < 2 then Inl (JsObject True ''bad gateway'' (Some ''SERVER_ERROR'') (Some 502))
                  else Inr (42::int), Suc k)) 0 =
     \<lparr>outcome = Inr 42, delays = [1000, 2000], attempts = 3, final = 3\<rparr> \<and>
   withRpcRetry
      (\<lambda>k::nat. (Inl (JsObject True ''execution reverted'' (Some ''CALL_EXCEPTION'') None) :: thrown + int,
                  Suc k)) 0 =
     \<lparr>outcome = Inl (JsObject True ''execution reverted'' (Some ''CALL_EXCEPTION'') None),
      delays = [], attempts = 1, final = 1\<rparr> \<and>
   isRetryableRpcError (JsObject True ''bad gateway'' None (Some 502))"
  using withRpcRetry_contract
    [where operation = "\<lambda>k::nat. (if k < 2 then Inl (JsObject True ''bad gateway'' (Some ''SERVER_ERROR'') (Some 502))
                                   else Inr (42::int), Suc k)"
       and ?s0.0 = 0 and ?s1.0 = 1 and ?s2.0 = 2 and ?s3.0 = 3 and v = 42
       and ?e1.0 = "JsObject True ''bad gateway'' (Some ''SERVER_ERROR'') (Some 502)"
       and ?e2.0 = "JsObject True ''bad gateway'' (Some ''SERVER_ERROR'') (Some 502)"
       and operation' = "\<lambda>k::nat. (Inl (JsObject True ''execution reverted'' (Some ''CALL_EXCEPTION'') None) :: thrown + int, Suc k)"
       and ?t0.0 = 0 and ?t1.0 = 1
       and e = "JsObject True ''execution reverted'' (Some ''CALL_EXCEPTION'') None"
       and e' = "JsObject True ''bad gateway'' None (Some 502)"]
  by simp

section \<open>Properties of project discovery\<close>

declare scan_windows.simps [simp del]

lemma scan_event_key:
  "scan_event (seen, events) ev =
     (case creation_key ev of
        None \<Rightarrow> (seen, events)
      | Some k \<Rightarrow> if k \<notin> set seen then (seen @ [k], events @ [ev]) else (seen, events))"
  by (simp add: creation_key_def Let_def split: option.splits)

lemma foldl_scan_event_fresh:
  "\<forall>ev \<in> set batch. creation_key ev \<noteq> None \<Longrightarrow>
   distinct (map creation_key batch) \<Longrightarrow>
   \<forall>ev \<in> set batch. the (creation_key ev) \<notin> set seen \<Longrightarrow>
   foldl scan_event (seen, events) batch =
     (seen @ map (\<lambda>ev. the (creation_key ev)) batch, events @ batch)"
proof (induction batch arbitrary: seen events)
  case Nil
  then show ?case by simp
next
  case (Cons ev batch)
  from Cons.prems obtain k where k: "creation_key ev = Some k" by auto
  have fresh: "k \<notin> set seen" using Cons.prems(3) k by auto
  have step: "scan_event (seen, events) ev = (seen @ [k], events @ [ev])"
    using k fresh by (simp add: scan_event_key del: scan_event.simps)
  have "\<forall>ev' \<in> set batch. the (creation_key ev') \<notin> set (seen @ [k])"
  proof
    fix ev' assume in_batch: "ev' \<in> set batch"
    then obtain k' where k': "creation_key ev' = Some k'" using Cons.prems(1) by auto
    have "creation_key ev \<notin> set (map creation_key batch)" using Cons.prems(2) by simp
    then have "creation_key ev' \<noteq> creation_key ev" using in_batch by (metis image_eqI set_map)
    then have "k' \<noteq> k" using k k' by simp
    moreover have "k' \<notin> set seen" using Cons.prems(3) in_batch k' by auto
    ultimately show "the (creation_key ev') \<notin> set (seen @ [k])" using k' by simp
  qed
  then have "foldl scan_event (seen @ [k], events @ [ev]) batch =
     ((seen @ [k]) @ map (\<lambda>ev. the (creation_key ev)) batch, (events @ [ev]) @ batch)"
    using Cons.prems by (intro Cons.IH) auto
  then show ?case using step k by (simp del: scan_event.simps)
qed

lemma mset_filter_split:
  "\<forall>x. \<not> (P x \<and> Q x) \<Longrightarrow>
   mset (filter P xs) + mset (filter Q xs) = mset (filter (\<lambda>x. P x \<or> Q x) xs)"
  by (induction xs) auto

lemma length_filter_full: "length xs \<le> length (filter P xs) \<Longrightarrow> filter P xs = xs"
proof -
  assume "length xs \<le> length (filter P xs)"
  then have "length (filter P xs) = length xs" using length_filter_le [of P xs] by simp
  then show ?thesis
    by (metis filter_id_conv length_filter_less less_irrefl)
qed


lemma scan_windows_complete:
  assumes "registry = registry_of log latest"
    and "totalProjects = int (length log)"
    and "\<forall>ev \<in> set log. creation_key ev \<noteq> None"
    and "distinct (map creation_key log)"
    and "mset (snd acc) = mset (filter (\<lambda>ev. currentEndBlock < int (blockNumber ev)) log)"
    and "\<forall>b. filter (\<lambda>ev. blockNumber ev = b) (snd acc) =
             (if currentEndBlock < int b then filter (\<lambda>ev. blockNumber ev = b) log else [])"
    and "fst acc = map (\<lambda>ev. the (creation_key ev)) (snd acc)"
  shows "\<exists>events queried'.
           scan_windows registry totalProjects currentEndBlock acc queried = Inr (events, queried') \<and>
           mset events = mset log \<and>
           (\<forall>b. filter (\<lambda>ev. blockNumber ev = b) events = filter (\<lambda>ev. blockNumber ev = b) log)"
  using assms
proof (induction registry totalProjects currentEndBlock acc queried rule: scan_windows.induct)
  case (1 registry totalProjects currentEndBlock acc queried)
  obtain seen events where acc: "acc = (seen, events)" by (cases acc)
  have m: "mset events = mset (filter (\<lambda>ev. currentEndBlock < int (blockNumber ev)) log)"
    and per: "\<And>b. filter (\<lambda>ev. blockNumber ev = b) events =
             (if currentEndBlock < int b then filter (\<lambda>ev. blockNumber ev = b) log else [])"
    and seen: "seen = map (\<lambda>ev. the (creation_key ev)) events"
    using "1.prems" acc by simp_all
  have set_events: "set events = {ev \<in> set log. currentEndBlock < int (blockNumber ev)}"
    using m by (metis mset_eq_setD set_filter)
  show ?case
  proof (cases "currentEndBlock \<ge> 0 \<and> int (length (fst acc)) < totalProjects")
    case False
    have all_new: "\<forall>ev \<in> set log. currentEndBlock < int (blockNumber ev)"
    proof (cases "currentEndBlock < 0")
      case True
      then show ?thesis by auto
    next
      case nonneg: False
      with False have "length log \<le> length seen"
        using "1.prems"(2) acc by simp
      also have "length seen = length (filter (\<lambda>ev. currentEndBlock < int (blockNumber ev)) log)"
        using seen m by (metis length_map size_mset)
      finally have "filter (\<lambda>ev. currentEndBlock < int (blockNumber ev)) log = log"
        by (rule length_filter_full)
      then show ?thesis by (simp add: filter_id_conv)
    qed
    then have full: "filter (\<lambda>ev. currentEndBlock < int (blockNumber ev)) log = log" by simp
    have blocks: "\<forall>b. filter (\<lambda>ev. blockNumber ev = b) events = filter (\<lambda>ev. blockNumber ev = b) log"
    proof
      fix b
      show "filter (\<lambda>ev. blockNumber ev = b) events = filter (\<lambda>ev. blockNumber ev = b) log"
      proof (cases "currentEndBlock < int b")
        case True
        then show ?thesis using per [of b] by simp
      next
        case old: False
        then have "filter (\<lambda>ev. blockNumber ev = b) log = []"
          using all_new by (auto simp: filter_empty_conv)
        then show ?thesis using per [of b] old by simp
      qed
    qed
    have "scan_windows registry totalProjects currentEndBlock acc queried = Inr (events, queried)"
      using False acc by (subst scan_windows.simps) auto
    then show ?thesis using m full blocks by auto
  next
    case True
    define currentStartBlock where "currentStartBlock = max 0 (currentEndBlock - MAX_EVENT_BLOCK_SPAN + 1)"
    define batch where "batch = filter (in_range currentStartBlock currentEndBlock) log"
    have bounds: "0 \<le> currentStartBlock" "currentStartBlock \<le> currentEndBlock"
      using True by (simp_all add: currentStartBlock_def MAX_EVENT_BLOCK_SPAN_def)
    have read: "rpc_read (queryFilter registry currentStartBlock currentEndBlock) = Inr batch"
      using "1.prems"(1) by (simp add: rpc_read_outcome registry_of_def batch_def)
    have "\<forall>ev \<in> set batch. the (creation_key ev) \<notin> set seen"
    proof (intro ballI notI)
      fix ev assume ev: "ev \<in> set batch" and "the (creation_key ev) \<in> set seen"
      then obtain ev' where ev': "ev' \<in> set events"
        and same: "the (creation_key ev) = the (creation_key ev')"
        using seen by auto
      have in_log: "ev \<in> set log" "ev' \<in> set log"
        using ev ev' set_events by (auto simp: batch_def)
      then have "creation_key ev = creation_key ev'"
        using same "1.prems"(3) by (metis option.expand)
      then have "ev = ev'"
        using in_log "1.prems"(4) by (metis distinct_map inj_onD)
      moreover have "int (blockNumber ev) \<le> currentEndBlock"
        using ev by (simp add: batch_def in_range_def)
      moreover have "currentEndBlock < int (blockNumber ev')"
        using ev' set_events by simp
      ultimately show False by simp
    qed
    moreover have "\<forall>ev \<in> set batch. creation_key ev \<noteq> None"
      using "1.prems"(3) by (simp add: batch_def)
    moreover have "distinct (map creation_key batch)"
      using "1.prems"(4) unfolding batch_def by (rule distinct_map_filter)
    ultimately have step: "foldl scan_event acc batch =
        (seen @ map (\<lambda>ev. the (creation_key ev)) batch, events @ batch)"
      unfolding acc by (intro foldl_scan_event_fresh) auto
    have m': "mset (events @ batch) =
        mset (filter (\<lambda>ev. currentStartBlock - 1 < int (blockNumber ev)) log)"
    proof -
      have "mset (events @ batch) =
          mset (filter (\<lambda>ev. currentEndBlock < int (blockNumber ev)) log) +
          mset (filter (in_range currentStartBlock currentEndBlock) log)"
        using m by (simp add: batch_def)
      also have "\<dots> = mset (filter (\<lambda>ev. currentEndBlock < int (blockNumber ev) \<or>
                                    in_range currentStartBlock currentEndBlock ev) log)"
        by (rule mset_filter_split) (simp add: in_range_def)
      also have "(\<lambda>ev. currentEndBlock < int (blockNumber ev) \<or>
                      in_range currentStartBlock currentEndBlock ev) =
                 (\<lambda>ev. currentStartBlock - 1 < int (blockNumber ev))"
        using bounds by (auto simp: in_range_def)
      finally show ?thesis .
    qed
    have per': "\<forall>b. filter (\<lambda>ev. blockNumber ev = b) (events @ batch) =
        (if currentStartBlock - 1 < int b then filter (\<lambda>ev. blockNumber ev = b) log else [])"
    proof
      fix b
      have in_batch: "filter (\<lambda>ev. blockNumber ev = b) batch =
          (if currentStartBlock \<le> int b \<and> int b \<le> currentEndBlock
           then filter (\<lambda>ev. blockNumber ev = b) log else [])"
        unfolding batch_def filter_filter
        by (auto simp: in_range_def filter_empty_conv intro: filter_cong)
      show "filter (\<lambda>ev. blockNumber ev = b) (events @ batch) =
        (if currentStartBlock - 1 < int b then filter (\<lambda>ev. blockNumber ev = b) log else [])"
        using per [of b] in_batch bounds by auto
    qed
    have "\<exists>events' queried'.
           scan_windows registry totalProjects (currentStartBlock - 1) (foldl scan_event acc batch)
             (queried @ [(currentStartBlock, currentEndBlock)]) = Inr (events', queried') \<and>
           mset events' = mset log \<and>
           (\<forall>b. filter (\<lambda>ev. blockNumber ev = b) events' = filter (\<lambda>ev. blockNumber ev = b) log)"
      using True currentStartBlock_def read "1.prems"(1-4)
    proof (rule "1.IH")
      show "mset (snd (foldl scan_event acc batch)) =
          mset (filter (\<lambda>ev. currentStartBlock - 1 < int (blockNumber ev)) log)"
        using m' step by simp
      show "\<forall>b. filter (\<lambda>ev. blockNumber ev = b) (snd (foldl scan_event acc batch)) =
          (if currentStartBlock - 1 < int b then filter (\<lambda>ev. blockNumber ev = b) log else [])"
        using per' step by simp
      show "fst (foldl scan_event acc batch) =
          map (\<lambda>ev. the (creation_key ev)) (snd (foldl scan_event acc batch))"
        using step seen by simp
    qed
    moreover have "scan_windows registry totalProjects currentEndBlock acc queried =
        scan_windows registry totalProjects (currentStartBlock - 1) (foldl scan_event acc batch)
             (queried @ [(currentStartBlock, currentEndBlock)])"
      using True read by (subst scan_windows.simps) (simp add: currentStartBlock_def Let_def)
    ultimately show ?thesis by simp
  qed
qed


lemma fetchProjectCreationEvents_log:
  assumes "sorted (map blockNumber log)"
    and "\<forall>ev \<in> set log. blockNumber ev \<le> latest"
    and "\<forall>ev \<in> set log. creation_key ev \<noteq> None"
    and "distinct (map creation_key log)"
    and "int (length log) < 2 ^ 53"
  shows "\<exists>queried. fetchProjectCreationEvents (registry_of log latest) =
           Inr \<lparr>found = log, queries = queried\<rparr>"
proof (cases "log = []")
  case True
  then show ?thesis
    by (simp add: fetchProjectCreationEvents_def registry_of_def rpc_read_outcome bn_toNumber_def)
next
  case False
  have init_mset: "mset (snd (([], []) :: string list \<times> event list)) =
          mset (filter (\<lambda>ev. int latest < int (blockNumber ev)) log)"
    using assms(2) by (auto simp: filter_empty_conv)
  have init_blocks: "\<forall>b. filter (\<lambda>ev. blockNumber ev = b) (snd (([], []) :: string list \<times> event list)) =
             (if int latest < int b then filter (\<lambda>ev. blockNumber ev = b) log else [])"
  proof
    fix b
    have "filter (\<lambda>ev. blockNumber ev = b) log = []" if "latest < b"
      using assms(2) that by (auto simp: filter_empty_conv)
    then show "filter (\<lambda>ev. blockNumber ev = b) (snd (([], []) :: string list \<times> event list)) =
             (if int latest < int b then filter (\<lambda>ev. blockNumber ev = b) log else [])"
      by simp
  qed
  have init_seen: "fst (([], []) :: string list \<times> event list) =
      map (\<lambda>ev. the (creation_key ev)) (snd (([], []) :: string list \<times> event list))"
    by simp
  have "\<exists>events queried.
      scan_windows (registry_of log latest) (int (length log)) (int latest) ([], []) [] =
        Inr (events, queried) \<and>
      mset events = mset log \<and>
      (\<forall>b. filter (\<lambda>ev. blockNumber ev = b) events = filter (\<lambda>ev. blockNumber ev = b) log)"
    by (rule scan_windows_complete [OF refl refl assms(3,4) init_mset init_blocks init_seen])
  then obtain events queried where
    run: "scan_windows (registry_of log latest) (int (length log)) (int latest) ([], []) [] =
            Inr (events, queried)"
    and m: "mset events = mset log"
    and per: "\<And>b. filter (\<lambda>ev. blockNumber ev = b) events = filter (\<lambda>ev. blockNumber ev = b) log"
    by blast
  have "sort_key blockNumber events = log"
  proof (rule properties_for_sort_key)
    show "mset log = mset events" using m by simp
    show "sorted (map blockNumber log)" by (rule assms(1))
    fix k
    have flip_eq: "(\<lambda>x. blockNumber k = blockNumber x) = (\<lambda>ev. blockNumber ev = blockNumber k)"
      by auto
    show "filter (\<lambda>x. blockNumber k = blockNumber x) log =
          filter (\<lambda>x. blockNumber k = blockNumber x) events"
      unfolding flip_eq by (rule per [symmetric])
  qed
  then show ?thesis
    using run False assms(5)
    by (simp add: fetchProjectCreationEvents_def registry_of_def rpc_read_outcome bn_toNumber_def)
qed

lemma set_keys: "set (List.map_filter f xs) = {y. \<exists>x \<in> set xs. f x = Some y}"
  by (induction xs) (auto split: option.splits)

lemma map_filter_total:
  "None \<notin> set (map f xs) \<Longrightarrow> List.map_filter f xs = map (\<lambda>x. the (f x)) xs"
  by (induction xs) (auto split: option.splits)

lemma scan_event_inv:
  assumes "scan_inv log acc" and "ev \<in> set log"
  shows "scan_inv log (scan_event acc ev) \<and>
         set (fst (scan_event acc ev)) = set (fst acc) \<union> set (List.map_filter creation_key [ev])"
proof -
  obtain seen events where acc: "acc = (seen, events)" by (cases acc)
  show ?thesis
  proof (cases "creation_key ev")
    case None
    with assms acc show ?thesis by (simp add: scan_event_key del: scan_event.simps)
  next
    case (Some k)
    show ?thesis
    proof (cases "k \<in> set seen")
      case True
      with assms acc Some show ?thesis
        by (simp add: scan_event_key insert_absorb del: scan_event.simps)
    next
      case False
      with assms acc Some show ?thesis
        by (auto simp: scan_event_key scan_inv_def simp del: scan_event.simps)
    qed
  qed
qed

lemma foldl_scan_event_inv:
  "scan_inv log acc \<Longrightarrow> set batch \<subseteq> set log \<Longrightarrow>
   scan_inv log (foldl scan_event acc batch) \<and>
   set (fst (foldl scan_event acc batch)) = set (fst acc) \<union> set (List.map_filter creation_key batch)"
proof (induction batch arbitrary: acc)
  case Nil
  then show ?case by simp
next
  case (Cons ev batch)
  from Cons.prems have ev: "ev \<in> set log" and rest: "set batch \<subseteq> set log" by simp_all
  from scan_event_inv [OF Cons.prems(1) ev]
  have inv1: "scan_inv log (scan_event acc ev)"
    and set1: "set (fst (scan_event acc ev)) =
                 set (fst acc) \<union> set (List.map_filter creation_key [ev])"
    by simp_all
  from Cons.IH [OF inv1 rest]
  have inv2: "scan_inv log (foldl scan_event (scan_event acc ev) batch)"
    and set2: "set (fst (foldl scan_event (scan_event acc ev) batch)) =
                 set (fst (scan_event acc ev)) \<union> set (List.map_filter creation_key batch)"
    by simp_all
  have "set (List.map_filter creation_key (ev # batch)) =
        set (List.map_filter creation_key [ev]) \<union> set (List.map_filter creation_key batch)"
    by (cases "creation_key ev") simp_all
  with inv2 set1 set2 show ?case by (simp del: scan_event.simps map_filter_simps) blast
qed


lemma scan_windows_general:
  assumes "queryFilter registry = (\<lambda>lo hi. Inr (filter (in_range lo hi) log))"
    and "totalProjects = int (length (remdups (List.map_filter creation_key log)))"
    and "scan_inv log acc"
    and "\<forall>ev \<in> set log. currentEndBlock < int (blockNumber ev) \<longrightarrow>
           (\<forall>k. creation_key ev = Some k \<longrightarrow> k \<in> set (fst acc))"
    and "currentEndBlock \<le> int latest"
    and "\<forall>q \<in> set queried. window_ok latest q"
  shows "\<exists>events queried'.
           scan_windows registry totalProjects currentEndBlock acc queried = Inr (events, queried') \<and>
           length events = length (remdups (List.map_filter creation_key log)) \<and>
           distinct (map creation_key events) \<and>
           None \<notin> set (map creation_key events) \<and>
           set (List.map_filter creation_key events) = set (List.map_filter creation_key log) \<and>
           set events \<subseteq> set log \<and>
           (\<forall>q \<in> set queried'. window_ok latest q)"
  using assms
proof (induction registry totalProjects currentEndBlock acc queried rule: scan_windows.induct)
  case (1 registry totalProjects currentEndBlock acc queried)
  note inv = "1.prems"(3)
  note cover = "1.prems"(4)
  have seen_eq: "fst acc = map (\<lambda>ev. the (creation_key ev)) (snd acc)"
    and seen_dist: "distinct (fst acc)"
    and valid: "None \<notin> set (map creation_key (snd acc))"
    and sub: "set (snd acc) \<subseteq> set log"
    using inv by (auto simp: scan_inv_def)
  show ?case
  proof (cases "currentEndBlock \<ge> 0 \<and> int (length (fst acc)) < totalProjects")
    case False
    have keys_events: "List.map_filter creation_key (snd acc) = fst acc"
      using map_filter_total [OF valid] by (simp add: seen_eq)
    have seen_sub: "set (fst acc) \<subseteq> set (List.map_filter creation_key log)"
    proof
      fix k assume "k \<in> set (fst acc)"
      then have "k \<in> set (List.map_filter creation_key (snd acc))" by (simp add: keys_events)
      then obtain ev where "ev \<in> set (snd acc)" "creation_key ev = Some k"
        by (auto simp: set_keys)
      with sub show "k \<in> set (List.map_filter creation_key log)" by (auto simp: set_keys)
    qed
    have seen_all: "set (fst acc) = set (List.map_filter creation_key log)"
    proof (cases "currentEndBlock < 0")
      case True
      have "set (List.map_filter creation_key log) \<subseteq> set (fst acc)"
      proof
        fix k assume "k \<in> set (List.map_filter creation_key log)"
        then obtain ev where ev: "ev \<in> set log" "creation_key ev = Some k"
          by (auto simp: set_keys)
        have "currentEndBlock < int (blockNumber ev)" using True by simp
        with cover ev show "k \<in> set (fst acc)" by blast
      qed
      with seen_sub show ?thesis by blast
    next
      case nonneg: False
      with False have "length (remdups (List.map_filter creation_key log)) \<le> length (fst acc)"
        using "1.prems"(2) by simp
      then have "card (set (List.map_filter creation_key log)) \<le> card (set (fst acc))"
        using seen_dist by (simp add: length_remdups_card_conv distinct_card)
      with seen_sub show ?thesis by (intro card_seteq) simp_all
    qed
    have len: "length (snd acc) = length (remdups (List.map_filter creation_key log))"
    proof -
      have "length (snd acc) = length (fst acc)" by (simp add: seen_eq)
      also have "\<dots> = card (set (fst acc))" using seen_dist by (simp add: distinct_card)
      also have "\<dots> = length (remdups (List.map_filter creation_key log))"
        by (simp add: seen_all length_remdups_card_conv)
      finally show ?thesis .
    qed
    have dist: "distinct (map creation_key (snd acc))"
    proof -
      have "distinct (map ((\<lambda>k. the k) \<circ> creation_key) (snd acc))"
        using seen_dist by (simp add: seen_eq comp_def)
      then have "inj_on ((\<lambda>k. the k) \<circ> creation_key) (set (snd acc))" "distinct (snd acc)"
        by (simp_all add: distinct_map)
      then show ?thesis by (simp add: distinct_map inj_on_imageI2)
    qed
    have "scan_windows registry totalProjects currentEndBlock acc queried = Inr (snd acc, queried)"
      using False by (subst scan_windows.simps) auto
    then show ?thesis
      using len dist valid sub "1.prems"(6) seen_all keys_events by simp
  next
    case True
    define currentStartBlock where
      "currentStartBlock = max 0 (currentEndBlock - MAX_EVENT_BLOCK_SPAN + 1)"
    define batch where "batch = filter (in_range currentStartBlock currentEndBlock) log"
    have bounds: "0 \<le> currentStartBlock" "currentStartBlock \<le> currentEndBlock"
      "currentEndBlock - currentStartBlock < MAX_EVENT_BLOCK_SPAN"
      using True by (simp_all add: currentStartBlock_def MAX_EVENT_BLOCK_SPAN_def)
    have read: "rpc_read (queryFilter registry currentStartBlock currentEndBlock) = Inr batch"
      using "1.prems"(1) by (simp add: rpc_read_outcome batch_def)
    have batch_sub: "set batch \<subseteq> set log" by (auto simp: batch_def)
    from foldl_scan_event_inv [OF inv batch_sub]
    have inv': "scan_inv log (foldl scan_event acc batch)"
      and seen': "set (fst (foldl scan_event acc batch)) =
                    set (fst acc) \<union> set (List.map_filter creation_key batch)"
      by simp_all
    have cover': "\<forall>ev \<in> set log. currentStartBlock - 1 < int (blockNumber ev) \<longrightarrow>
           (\<forall>k. creation_key ev = Some k \<longrightarrow> k \<in> set (fst (foldl scan_event acc batch)))"
    proof (intro ballI impI allI)
      fix ev k
      assume ev: "ev \<in> set log" and new: "currentStartBlock - 1 < int (blockNumber ev)"
        and k: "creation_key ev = Some k"
      show "k \<in> set (fst (foldl scan_event acc batch))"
      proof (cases "currentEndBlock < int (blockNumber ev)")
        case True
        with cover ev k have "k \<in> set (fst acc)" by blast
        then show ?thesis by (simp add: seen')
      next
        case False
        with new ev have "ev \<in> set batch" by (simp add: batch_def in_range_def)
        with k have "k \<in> set (List.map_filter creation_key batch)" by (auto simp: set_keys)
        then show ?thesis by (simp add: seen')
      qed
    qed
    have below: "currentStartBlock - 1 \<le> int latest" using bounds "1.prems"(5) by simp
    have queried': "\<forall>q \<in> set (queried @ [(currentStartBlock, currentEndBlock)]). window_ok latest q"
      using "1.prems"(6) bounds "1.prems"(5) by (simp add: window_ok_def)
    have "\<exists>events queried'.
           scan_windows registry totalProjects (currentStartBlock - 1) (foldl scan_event acc batch)
             (queried @ [(currentStartBlock, currentEndBlock)]) = Inr (events, queried') \<and>
           length events = length (remdups (List.map_filter creation_key log)) \<and>
           distinct (map creation_key events) \<and>
           None \<notin> set (map creation_key events) \<and>
           set (List.map_filter creation_key events) = set (List.map_filter creation_key log) \<and>
           set events \<subseteq> set log \<and>
           (\<forall>q \<in> set queried'. window_ok latest q)"
      using True currentStartBlock_def read "1.prems"(1,2) inv' cover' below queried'
      by (rule "1.IH")
    moreover have "scan_windows registry totalProjects currentEndBlock acc queried =
        scan_windows registry totalProjects (currentStartBlock - 1) (foldl scan_event acc batch)
             (queried @ [(currentStartBlock, currentEndBlock)])"
      using True read by (subst scan_windows.simps) (simp add: currentStartBlock_def Let_def)
    ultimately show ?thesis by simp
  qed
qed

lemma fetchProjectCreationEvents_general:
  assumes height: "getBlockNumber registry = Inr latest"
    and count: "projectCount registry = Inr (int (length (remdups (List.map_filter creation_key log))))"
    and query: "queryFilter registry = (\<lambda>lo hi. Inr (filter (in_range lo hi) log))"
    and past: "\<forall>ev \<in> set log. blockNumber ev \<le> latest"
    and safe: "int (length (remdups (List.map_filter creation_key log))) < 2 ^ 53"
  shows "\<exists>r. fetchProjectCreationEvents registry = Inr r \<and>
             length (found r) = length (remdups (List.map_filter creation_key log)) \<and>
             distinct (map creation_key (found r)) \<and>
             None \<notin> set (map creation_key (found r)) \<and>
             set (List.map_filter creation_key (found r)) = set (List.map_filter creation_key log) \<and>
             set (found r) \<subseteq> set log \<and>
             sorted (map blockNumber (found r)) \<and>
             (\<forall>q \<in> set (queries r). window_ok latest q)"
proof (cases "length (remdups (List.map_filter creation_key log)) = 0")
  case True
  then have "List.map_filter creation_key log = []" by simp
  moreover have "fetchProjectCreationEvents registry = Inr \<lparr>found = [], queries = []\<rparr>"
    using height count True
    by (simp add: fetchProjectCreationEvents_def rpc_read_outcome bn_toNumber_def)
  ultimately show ?thesis using True by simp
next
  case False
  have inv: "scan_inv log ([], [])" by (simp add: scan_inv_def)
  have cover: "\<forall>ev \<in> set log. int latest < int (blockNumber ev) \<longrightarrow>
           (\<forall>k. creation_key ev = Some k \<longrightarrow> k \<in> set (fst (([], []) :: string list \<times> event list)))"
    using past by auto
  have none: "\<forall>q \<in> set ([] :: (int \<times> int) list). window_ok latest q" by simp
  from scan_windows_general [OF query refl inv cover order_refl none]
  obtain events queried where
    run: "scan_windows registry (int (length (remdups (List.map_filter creation_key log))))
            (int latest) ([], []) [] = Inr (events, queried)"
    and len: "length events = length (remdups (List.map_filter creation_key log))"
    and dist: "distinct (map creation_key events)"
    and valid: "None \<notin> set (map creation_key events)"
    and keys: "set (List.map_filter creation_key events) = set (List.map_filter creation_key log)"
    and sub: "set events \<subseteq> set log"
    and windows: "\<forall>q \<in> set queried. window_ok latest q"
    by (elim exE conjE)
  let ?found = "sort_key blockNumber events"
  have fetched: "fetchProjectCreationEvents registry = Inr \<lparr>found = ?found, queries = queried\<rparr>"
    using height count False safe run
    by (simp add: fetchProjectCreationEvents_def rpc_read_outcome bn_toNumber_def)
  have same: "mset (map creation_key ?found) = mset (map creation_key events)" by simp
  have dist': "distinct (map creation_key ?found)"
    using mset_eq_imp_distinct_iff [OF same] dist by blast
  have keys': "set (List.map_filter creation_key ?found) = set (List.map_filter creation_key log)"
    using keys by (simp add: set_keys)
  have sorted': "sorted (map blockNumber ?found)" by (rule sorted_sort_key)
  show ?thesis
    using fetched len dist' valid keys' sub sorted' windows by simp
qed

text \<open>
  C6. Let the creation events of a registry be the list \<open>log\<close>, in which a project may
  be recorded more than once and an event may lack its address, let the registry count N
  projects, the number of different normalized addresses of the log, and let it be read
  at any block height \<open>latest\<close> not below the events (so for every placement of the
  windows). Then discovery returns exactly N events of the log, with pairwise different
  project addresses that are exactly the addresses of the log, sorted by ascending block
  number, and every range it queried is a window of at most 10 blocks. When the log
  records each project once, in ascending block order, discovery returns the log itself:
  the projects in creation order. For a registry that counts 0 projects it returns the
  empty list without any window query.
\<close>

theorem fetchProjectCreationEvents_complete:
  "(getBlockNumber registry = Inr latest \<and>
    projectCount registry = Inr (int (length (remdups (List.map_filter creation_key log)))) \<and>
    queryFilter registry = (\<lambda>lo hi. Inr (filter (in_range lo hi) log)) \<and>
    (\<forall>ev \<in> set log. blockNumber ev \<le> latest) \<and>
    int (length (remdups (List.map_filter creation_key log))) < 2 ^ 53 \<longrightarrow>
      (\<exists>r. fetchProjectCreationEvents registry = Inr r \<and>
           length (found r) = length (remdups (List.map_filter creation_key log)) \<and>
           distinct (map creation_key (found r)) \<and>
           None \<notin> set (map creation_key (found r)) \<and>
           set (List.map_filter creation_key (found r)) = set (List.map_filter creation_key log) \<and>
           set (found r) \<subseteq> set log \<and>
           sorted (map blockNumber (found r)) \<and>
           (\<forall>q \<in> set (queries r). window_ok latest q))) \<and>
   (sorted (map blockNumber ordered) \<and>
    (\<forall>ev \<in> set ordered. blockNumber ev \<le> tip) \<and>
    (\<forall>ev \<in> set ordered. creation_key ev \<noteq> None) \<and>
    distinct (map creation_key ordered) \<and>
    int (length ordered) < 2 ^ 53 \<longrightarrow>
      (\<exists>queried. fetchProjectCreationEvents (registry_of ordered tip) =
         Inr \<lparr>found = ordered, queries = queried\<rparr>)) \<and>
   (getBlockNumber vacant = Inr height \<and> projectCount vacant = Inr 0 \<longrightarrow>
      fetchProjectCreationEvents vacant = Inr \<lparr>found = [], queries = []\<rparr>)"
proof -
  have general: "getBlockNumber registry = Inr latest \<and>
    projectCount registry = Inr (int (length (remdups (List.map_filter creation_key log)))) \<and>
    queryFilter registry = (\<lambda>lo hi. Inr (filter (in_range lo hi) log)) \<and>
    (\<forall>ev \<in> set log. blockNumber ev \<le> latest) \<and>
    int (length (remdups (List.map_filter creation_key log))) < 2 ^ 53 \<longrightarrow>
      (\<exists>r. fetchProjectCreationEvents registry = Inr r \<and>
           length (found r) = length (remdups (List.map_filter creation_key log)) \<and>
           distinct (map creation_key (found r)) \<and>
           None \<notin> set (map creation_key (found r)) \<and>
           set (List.map_filter creation_key (found r)) = set (List.map_filter creation_key log) \<and>
           set (found r) \<subseteq> set log \<and>
           sorted (map blockNumber (found r)) \<and>
           (\<forall>q \<in> set (queries r). window_ok latest q))"
  proof (rule impI)
    assume h: "getBlockNumber registry = Inr latest \<and>
      projectCount registry = Inr (int (length (remdups (List.map_filter creation_key log)))) \<and>
      queryFilter registry = (\<lambda>lo hi. Inr (filter (in_range lo hi) log)) \<and>
      (\<forall>ev \<in> set log. blockNumber ev \<le> latest) \<and>
      int (length (remdups (List.map_filter creation_key log))) < 2 ^ 53"
    show "\<exists>r. fetchProjectCreationEvents registry = Inr r \<and>
           length (found r) = length (remdups (List.map_filter creation_key log)) \<and>
           distinct (map creation_key (found r)) \<and>
           None \<notin> set (map creation_key (found r)) \<and>
           set (List.map_filter creation_key (found r)) = set (List.map_filter creation_key log) \<and>
           set (found r) \<subseteq> set log \<and>
           sorted (map blockNumber (found r)) \<and>
           (\<forall>q \<in> set (queries r). window_ok latest q)"
      by (rule fetchProjectCreationEvents_general
            [OF h [THEN conjunct1] h [THEN conjunct2, THEN conjunct1]
                h [THEN conjunct2, THEN conjunct2, THEN conjunct1]
                h [THEN conjunct2, THEN conjunct2, THEN conjunct2, THEN conjunct1]
                h [THEN conjunct2, THEN conjunct2, THEN conjunct2, THEN conjunct2]])
  qed
  have exact: "sorted (map blockNumber ordered) \<and>
    (\<forall>ev \<in> set ordered. blockNumber ev \<le> tip) \<and>
    (\<forall>ev \<in> set ordered. creation_key ev \<noteq> None) \<and>
    distinct (map creation_key ordered) \<and>
    int (length ordered) < 2 ^ 53 \<longrightarrow>
      (\<exists>queried. fetchProjectCreationEvents (registry_of ordered tip) =
         Inr \<lparr>found = ordered, queries = queried\<rparr>)"
  proof (rule impI)
    assume h: "sorted (map blockNumber ordered) \<and>
      (\<forall>ev \<in> set ordered. blockNumber ev \<le> tip) \<and>
      (\<forall>ev \<in> set ordered. creation_key ev \<noteq> None) \<and>
      distinct (map creation_key ordered) \<and>
      int (length ordered) < 2 ^ 53"
    show "\<exists>queried. fetchProjectCreationEvents (registry_of ordered tip) =
         Inr \<lparr>found = ordered, queries = queried\<rparr>"
      by (rule fetchProjectCreationEvents_log
            [OF h [THEN conjunct1] h [THEN conjunct2, THEN conjunct1]
                h [THEN conjunct2, THEN conjunct2, THEN conjunct1]
                h [THEN conjunct2, THEN conjunct2, THEN conjunct2, THEN conjunct1]
                h [THEN conjunct2, THEN conjunct2, THEN conjunct2, THEN conjunct2]])
  qed
  have zero: "getBlockNumber vacant = Inr height \<and> projectCount vacant = Inr 0 \<longrightarrow>
      fetchProjectCreationEvents vacant = Inr \<lparr>found = [], queries = []\<rparr>"
    by (simp add: fetchProjectCreationEvents_def rpc_read_outcome bn_toNumber_def)
  show ?thesis by (rule conjI [OF general conjI [OF exact zero]])
qed

theorem fetchProjectCreationEvents_complete_witness:
  "getBlockNumber demo_repeat_registry = Inr 25 \<and>
   length (remdups (List.map_filter creation_key demo_repeat_log)) = 2 \<and>
   projectCount demo_repeat_registry =
     Inr (int (length (remdups (List.map_filter creation_key demo_repeat_log)))) \<and>
   queryFilter demo_repeat_registry = (\<lambda>lo hi. Inr (filter (in_range lo hi) demo_repeat_log)) \<and>
   map blockNumber demo_repeat_log = [3, 14, 20] \<and>
   fetchProjectCreationEvents demo_repeat_registry =
     Inr \<lparr>found =
           [\<lparr>blockNumber = 14,
              args = Some \<lparr>args_0 = Some ''0xBb'', args_project = Some ''0xBb'', args_token = Some ''0x02''\<rparr>\<rparr>,
            \<lparr>blockNumber = 20,
              args = Some \<lparr>args_0 = Some ''0xaa'', args_project = Some ''0xaa'', args_token = Some ''0x01''\<rparr>\<rparr>],
          queries = [(16, 25), (6, 15)]\<rparr> \<and>
   (\<exists>r. fetchProjectCreationEvents demo_repeat_registry = Inr r \<and>
        length (found r) = length (remdups (List.map_filter creation_key demo_repeat_log)) \<and>
        distinct (map creation_key (found r)) \<and>
        None \<notin> set (map creation_key (found r)) \<and>
        set (List.map_filter creation_key (found r)) =
          set (List.map_filter creation_key demo_repeat_log) \<and>
        set (found r) \<subseteq> set demo_repeat_log \<and>
        sorted (map blockNumber (found r)) \<and>
        (\<forall>q \<in> set (queries r). window_ok 25 q)) \<and>
   sorted (map blockNumber demo_ordered_log) \<and>
   distinct (map creation_key demo_ordered_log) \<and>
   (\<exists>queried. fetchProjectCreationEvents (registry_of demo_ordered_log 25) =
      Inr \<lparr>found = demo_ordered_log, queries = queried\<rparr>) \<and>
   fetchProjectCreationEvents (registry_of [] 25) = Inr \<lparr>found = [], queries = []\<rparr>"
proof -
  have height: "getBlockNumber demo_repeat_registry = Inr 25"
    by (simp add: demo_repeat_registry_def registry_of_def)
  have len: "length (remdups (List.map_filter creation_key demo_repeat_log)) = 2"
    by code_simp
  have count: "projectCount demo_repeat_registry =
     Inr (int (length (remdups (List.map_filter creation_key demo_repeat_log))))"
    by (simp add: len) (simp add: demo_repeat_registry_def)
  have query: "queryFilter demo_repeat_registry =
     (\<lambda>lo hi. Inr (filter (in_range lo hi) demo_repeat_log))"
    by (simp add: demo_repeat_registry_def registry_of_def)
  have blocks: "map blockNumber demo_repeat_log = [3, 14, 20]"
    by (simp add: demo_repeat_log_def)
  have past: "\<forall>ev \<in> set demo_repeat_log. blockNumber ev \<le> 25"
    by (simp add: demo_repeat_log_def)
  have safe: "int (length (remdups (List.map_filter creation_key demo_repeat_log))) < 2 ^ 53"
    by (simp add: len)
  have run: "fetchProjectCreationEvents demo_repeat_registry =
     Inr \<lparr>found =
           [\<lparr>blockNumber = 14,
              args = Some \<lparr>args_0 = Some ''0xBb'', args_project = Some ''0xBb'', args_token = Some ''0x02''\<rparr>\<rparr>,
            \<lparr>blockNumber = 20,
              args = Some \<lparr>args_0 = Some ''0xaa'', args_project = Some ''0xaa'', args_token = Some ''0x01''\<rparr>\<rparr>],
          queries = [(16, 25), (6, 15)]\<rparr>"
    by code_simp
  have ordered: "sorted (map blockNumber demo_ordered_log)"
    by (simp add: demo_ordered_log_def)
  have old: "\<forall>ev \<in> set demo_ordered_log. blockNumber ev \<le> 25"
    by (simp add: demo_ordered_log_def)
  have valid: "\<forall>ev \<in> set demo_ordered_log. creation_key ev \<noteq> None"
    by (simp add: demo_ordered_log_def creation_key_def)
  have dist: "distinct (map creation_key demo_ordered_log)"
    by code_simp
  have few: "int (length demo_ordered_log) < 2 ^ 53"
    by (simp add: demo_ordered_log_def)
  have vacant: "getBlockNumber (registry_of [] 25) = Inr 25 \<and> projectCount (registry_of [] 25) = Inr 0"
    by (simp add: registry_of_def)
  note inst = fetchProjectCreationEvents_complete
    [where registry = demo_repeat_registry and latest = 25 and log = demo_repeat_log
       and ordered = demo_ordered_log and tip = 25
       and vacant = "registry_of [] 25" and height = 25]
  note general = inst [THEN conjunct1, THEN mp,
    OF conjI [OF height conjI [OF count conjI [OF query conjI [OF past safe]]]]]
  note exact = inst [THEN conjunct2, THEN conjunct1, THEN mp,
    OF conjI [OF ordered conjI [OF old conjI [OF valid conjI [OF dist few]]]]]
  note zero = inst [THEN conjunct2, THEN conjunct2, THEN mp, OF vacant]
  show ?thesis
    by (intro conjI height len count query blocks run general ordered dist exact zero)
qed

section \<open>Properties of the rebalance loop\<close>

lemma and_then_None:
  "and_then r f = (None, st') \<longleftrightarrow> (\<exists>s. r = (None, s) \<and> f s = (None, st'))"
  by (cases r) (auto simp: and_then_def split: option.splits)

lemma call_and_record_None:
  "call_and_record chain request addr tid nm st = (None, st') \<Longrightarrow>
   \<exists>tx. actions st' = actions st @
           [\<lparr>action_projectAddress = addr, action_tokenId = tid, action_name = nm, txHash = tx\<rparr>] \<and>
        calls st' = calls st @ [request]"
  by (auto simp: call_and_record_def split: prod.splits sum.splits)

lemma approve_if_needed_None:
  "approve_if_needed chain cfg pk caller m p token nm bal allow st = (None, st') \<Longrightarrow>
   st' = st \<or>
   (\<exists>tx. actions st' = actions st @
           [\<lparr>action_projectAddress = projectAddress (project m), action_tokenId = Some (tokenId p),
             action_name = nm, txHash = tx\<rparr>])"
  by (auto simp: approve_if_needed_def dest: call_and_record_None split: if_splits)

lemma rebalance_position_block:
  assumes "rebalance_position chain cfg pk caller m p st = (None, st')"
  shows "\<exists>blk. actions st' = actions st @ blk \<and>
               position_block (projectAddress (project m)) (tokenId p) blk"
proof (cases "liquidity p = 0")
  case True
  with assms show ?thesis by (simp add: rebalance_position_def position_block_def)
next
  case nz: False
  obtain use where use: "bn_div (liquidity p * DEFAULT_REBALANCE_LIQUIDITY_BPS) 10000 = Inr use"
    by (simp add: bn_div_def)
  show ?thesis
  proof (cases "use = 0 \<and> metric_direction m = decrease")
    case True
    with assms nz use show ?thesis by (simp add: rebalance_position_def position_block_def)
  next
    case go: False
    show ?thesis
    proof (cases "metric_direction m")
      case none
      with assms nz use show ?thesis by (simp add: rebalance_position_def position_block_def)
    next
      case decrease
      with assms nz use go obtain s1 c1 c2 where
        s1: "call_and_record chain c1 (projectAddress (project m)) (Some (tokenId p))
               ''decreaseLiquidity'' st = (None, s1)"
        and s2: "call_and_record chain c2 (projectAddress (project m)) (Some (tokenId p))
               ''collect'' s1 = (None, st')"
        by (auto simp: rebalance_position_def and_then_None)
      from call_and_record_None [OF s1] call_and_record_None [OF s2]
      show ?thesis by (auto simp: position_block_def)
    next
      case increase
      with assms nz use go obtain b0 b1 a0 a1 where
        run: "and_then
                (and_then
                   (approve_if_needed chain cfg pk caller m p (token0 p) ''approveToken0'' b0 a0 st)
                   (approve_if_needed chain cfg pk caller m p (token1 p) ''approveToken1'' b1 a1))
                (\<lambda>st'. call_and_record chain
                   \<lparr>call_pkpPublicKey = pk, callerAddress = caller,
                    contractAddress = positionManager cfg,
                    functionName = ''increaseLiquidity'',
                    call_args = IncreaseLiquidityArgs (tokenId p) b0 b1
                      0 0 (Date_now chain (world st') div 1000 + 900)\<rparr>
                   (projectAddress (project m)) (Some (tokenId p))
                   ''increaseLiquidity'' st') = (None, st') \<or> st' = st"
        by (auto simp: rebalance_position_def split: sum.splits if_splits)
      then show ?thesis
      proof
        assume "st' = st"
        then show ?thesis by (simp add: position_block_def)
      next
        assume "and_then
                (and_then
                   (approve_if_needed chain cfg pk caller m p (token0 p) ''approveToken0'' b0 a0 st)
                   (approve_if_needed chain cfg pk caller m p (token1 p) ''approveToken1'' b1 a1))
                (\<lambda>st'. call_and_record chain
                   \<lparr>call_pkpPublicKey = pk, callerAddress = caller,
                    contractAddress = positionManager cfg,
                    functionName = ''increaseLiquidity'',
                    call_args = IncreaseLiquidityArgs (tokenId p) b0 b1
                      0 0 (Date_now chain (world st') div 1000 + 900)\<rparr>
                   (projectAddress (project m)) (Some (tokenId p))
                   ''increaseLiquidity'' st') = (None, st')"
        then obtain s1 s2 c where
          ap0: "approve_if_needed chain cfg pk caller m p (token0 p) ''approveToken0'' b0 a0 st = (None, s1)"
          and ap1: "approve_if_needed chain cfg pk caller m p (token1 p) ''approveToken1'' b1 a1 s1 = (None, s2)"
          and inc: "call_and_record chain c (projectAddress (project m)) (Some (tokenId p))
                      ''increaseLiquidity'' s2 = (None, st')"
          by (auto simp: and_then_None)
        from approve_if_needed_None [OF ap0] approve_if_needed_None [OF ap1]
          call_and_record_None [OF inc]
        show ?thesis by (auto simp: position_block_def)
      qed
    qed
  qed
qed


lemma collect_follows_decrease_append:
  "collect_follows_decrease xs \<Longrightarrow> collect_follows_decrease ys \<Longrightarrow>
   collect_follows_decrease (xs @ ys)"
  unfolding collect_follows_decrease_def
proof (intro allI impI)
  fix i
  assume xs: "\<forall>i<length xs. action_name (xs ! i) = ''decreaseLiquidity'' \<longrightarrow>
        Suc i < length xs \<and> action_name (xs ! Suc i) = ''collect'' \<and>
        action_tokenId (xs ! Suc i) = action_tokenId (xs ! i) \<and>
        action_projectAddress (xs ! Suc i) = action_projectAddress (xs ! i)"
    and ys: "\<forall>i<length ys. action_name (ys ! i) = ''decreaseLiquidity'' \<longrightarrow>
        Suc i < length ys \<and> action_name (ys ! Suc i) = ''collect'' \<and>
        action_tokenId (ys ! Suc i) = action_tokenId (ys ! i) \<and>
        action_projectAddress (ys ! Suc i) = action_projectAddress (ys ! i)"
    and i: "i < length (xs @ ys)"
    and dec: "action_name ((xs @ ys) ! i) = ''decreaseLiquidity''"
  show "Suc i < length (xs @ ys) \<and> action_name ((xs @ ys) ! Suc i) = ''collect'' \<and>
        action_tokenId ((xs @ ys) ! Suc i) = action_tokenId ((xs @ ys) ! i) \<and>
        action_projectAddress ((xs @ ys) ! Suc i) = action_projectAddress ((xs @ ys) ! i)"
  proof (cases "i < length xs")
    case True
    with xs dec have "Suc i < length xs \<and> action_name (xs ! Suc i) = ''collect'' \<and>
        action_tokenId (xs ! Suc i) = action_tokenId (xs ! i) \<and>
        action_projectAddress (xs ! Suc i) = action_projectAddress (xs ! i)"
      by (simp add: nth_append)
    then show ?thesis using True by (simp add: nth_append)
  next
    case False
    define k where "k = i - length xs"
    have k: "k < length ys" "i = length xs + k" using False i by (simp_all add: k_def)
    with ys dec have "Suc k < length ys \<and> action_name (ys ! Suc k) = ''collect'' \<and>
        action_tokenId (ys ! Suc k) = action_tokenId (ys ! k) \<and>
        action_projectAddress (ys ! Suc k) = action_projectAddress (ys ! k)"
      by (simp add: nth_append)
    then show ?thesis using k by (simp add: nth_append)
  qed
qed

lemma approvals_precede_increase_append:
  "approvals_precede_increase xs \<Longrightarrow> approvals_precede_increase ys \<Longrightarrow>
   approvals_precede_increase (xs @ ys)"
  unfolding approvals_precede_increase_def
proof (intro allI impI)
  fix i
  let ?ok = "\<lambda>zs i j. i < j \<and> j \<le> i + 2 \<and> j < length zs \<and>
             action_name (zs ! j) = ''increaseLiquidity'' \<and>
             action_tokenId (zs ! j) = action_tokenId (zs ! i) \<and>
             action_projectAddress (zs ! j) = action_projectAddress (zs ! i)"
  assume xs: "\<forall>i<length xs.
        action_name (xs ! i) = ''approveToken0'' \<or> action_name (xs ! i) = ''approveToken1'' \<longrightarrow>
        (\<exists>j. ?ok xs i j)"
    and ys: "\<forall>i<length ys.
        action_name (ys ! i) = ''approveToken0'' \<or> action_name (ys ! i) = ''approveToken1'' \<longrightarrow>
        (\<exists>j. ?ok ys i j)"
    and i: "i < length (xs @ ys)"
    and ap: "action_name ((xs @ ys) ! i) = ''approveToken0'' \<or>
             action_name ((xs @ ys) ! i) = ''approveToken1''"
  show "\<exists>j. ?ok (xs @ ys) i j"
  proof (cases "i < length xs")
    case True
    with xs ap obtain j where "?ok xs i j" by (auto simp: nth_append)
    then have "?ok (xs @ ys) i j" using True by (simp add: nth_append)
    then show ?thesis ..
  next
    case False
    define k where "k = i - length xs"
    have k: "k < length ys" "i = length xs + k" using False i by (simp_all add: k_def)
    with ys ap obtain j where "?ok ys k j" by (auto simp: nth_append)
    then have "?ok (xs @ ys) i (length xs + j)" using k by (simp add: nth_append)
    then show ?thesis ..
  qed
qed

lemma position_block_order:
  assumes "position_block addr tid blk"
  shows "collect_follows_decrease blk" and "approvals_precede_increase blk"
    and "\<forall>a \<in> set blk. action_name a \<noteq> ''accrueInterest''"
proof -
  from assms have names: "map action_name blk \<in>
       {[], [''decreaseLiquidity'', ''collect''], [''increaseLiquidity''],
        [''approveToken0'', ''increaseLiquidity''], [''approveToken1'', ''increaseLiquidity''],
        [''approveToken0'', ''approveToken1'', ''increaseLiquidity'']}"
    and same: "\<forall>a \<in> set blk. action_projectAddress a = addr \<and> action_tokenId a = Some tid"
    by (simp_all add: position_block_def)
  from names consider "blk = []"
    | d c where "blk = [d, c]" "action_name d = ''decreaseLiquidity''" "action_name c = ''collect''"
    | i where "blk = [i]" "action_name i = ''increaseLiquidity''"
    | a i where "blk = [a, i]" "action_name a = ''approveToken0''" "action_name i = ''increaseLiquidity''"
    | a i where "blk = [a, i]" "action_name a = ''approveToken1''" "action_name i = ''increaseLiquidity''"
    | a b i where "blk = [a, b, i]" "action_name a = ''approveToken0''"
        "action_name b = ''approveToken1''" "action_name i = ''increaseLiquidity''"
    by (auto simp: map_eq_Cons_conv)
  then have "collect_follows_decrease blk \<and> approvals_precede_increase blk \<and>
             (\<forall>a \<in> set blk. action_name a \<noteq> ''accrueInterest'')"
  proof cases
    case 1
    then show ?thesis by (simp add: collect_follows_decrease_def approvals_precede_increase_def)
  next
    case 2
    with same show ?thesis
      by (auto simp: collect_follows_decrease_def approvals_precede_increase_def less_Suc_eq)
  next
    case 3
    with same show ?thesis
      by (auto simp: collect_follows_decrease_def approvals_precede_increase_def less_Suc_eq)
  next
    case 4
    with same have "approvals_precede_increase blk"
      unfolding approvals_precede_increase_def
      by (auto simp: less_Suc_eq intro!: exI [of _ 1])
    with 4 same show ?thesis
      by (auto simp: collect_follows_decrease_def less_Suc_eq)
  next
    case 5
    with same have "approvals_precede_increase blk"
      unfolding approvals_precede_increase_def
      by (auto simp: less_Suc_eq intro!: exI [of _ 1])
    with 5 same show ?thesis
      by (auto simp: collect_follows_decrease_def less_Suc_eq)
  next
    case 6
    with same have "approvals_precede_increase blk"
      unfolding approvals_precede_increase_def
      by (auto simp: less_Suc_eq intro!: exI [of _ 2])
    with 6 same show ?thesis
      by (auto simp: collect_follows_decrease_def less_Suc_eq)
  qed
  then show "collect_follows_decrease blk" and "approvals_precede_increase blk"
    and "\<forall>a \<in> set blk. action_name a \<noteq> ''accrueInterest''"
    by simp_all
qed


lemma rebalance_positions_block:
  "rebalance_positions chain cfg pk caller m ps st = (None, st') \<Longrightarrow>
   \<exists>blk. actions st' = actions st @ blk \<and>
         collect_follows_decrease blk \<and> approvals_precede_increase blk \<and>
         (\<forall>a \<in> set blk. action_projectAddress a = projectAddress (project m) \<and>
                         action_name a \<noteq> ''accrueInterest'' \<and>
                         (\<exists>p \<in> set ps. action_tokenId a = Some (tokenId p)))"
proof (induction ps arbitrary: st)
  case Nil
  then show ?case
    by (simp add: collect_follows_decrease_def approvals_precede_increase_def)
next
  case (Cons p ps)
  from Cons.prems obtain s1 where
    one: "rebalance_position chain cfg pk caller m p st = (None, s1)"
    and rest: "rebalance_positions chain cfg pk caller m ps s1 = (None, st')"
    by (auto simp: and_then_None)
  from rebalance_position_block [OF one] obtain b1 where
    b1: "actions s1 = actions st @ b1"
    and blk1: "position_block (projectAddress (project m)) (tokenId p) b1"
    by blast
  from Cons.IH [OF rest] obtain b2 where
    b2: "actions st' = actions s1 @ b2"
    and d2: "collect_follows_decrease b2" and a2: "approvals_precede_increase b2"
    and own2: "\<forall>a \<in> set b2. action_projectAddress a = projectAddress (project m) \<and>
                 action_name a \<noteq> ''accrueInterest'' \<and>
                 (\<exists>p \<in> set ps. action_tokenId a = Some (tokenId p))"
    by blast
  have "actions st' = actions st @ (b1 @ b2)" using b1 b2 by simp
  moreover have "collect_follows_decrease (b1 @ b2)"
    using position_block_order(1) [OF blk1] d2 by (rule collect_follows_decrease_append)
  moreover have "approvals_precede_increase (b1 @ b2)"
    using position_block_order(2) [OF blk1] a2 by (rule approvals_precede_increase_append)
  moreover have "\<forall>a \<in> set (b1 @ b2). action_projectAddress a = projectAddress (project m) \<and>
                 action_name a \<noteq> ''accrueInterest'' \<and>
                 (\<exists>q \<in> set (p # ps). action_tokenId a = Some (tokenId q))"
    using position_block_order(3) [OF blk1] blk1 own2 by (auto simp: position_block_def)
  ultimately show ?case by blast
qed

lemma rebalance_project_block:
  assumes "rebalance_project chain cfg pk caller m st = (None, st')"
  shows "\<exists>blk. actions st' = actions st @ blk \<and> project_block m blk"
proof (cases "shouldRebalance m")
  case False
  with assms have "st' = st" by (simp add: rebalance_project_def)
  with False show ?thesis
    by (simp add: project_block_def collect_follows_decrease_def approvals_precede_increase_def)
next
  case True
  with assms obtain s1 c where
    accrue: "call_and_record chain c (projectAddress (project m)) None ''accrueInterest'' st = (None, s1)"
    and rest: "rebalance_positions chain cfg pk caller m (positions m) s1 = (None, st')"
    by (auto simp: rebalance_project_def and_then_None)
  from call_and_record_None [OF accrue] obtain tx where
    s1: "actions s1 = actions st @
           [\<lparr>action_projectAddress = projectAddress (project m), action_tokenId = None,
             action_name = ''accrueInterest'', txHash = tx\<rparr>]"
    by blast
  from rebalance_positions_block [OF rest] obtain b where
    b: "actions st' = actions s1 @ b"
    and d: "collect_follows_decrease b" and a: "approvals_precede_increase b"
    and own: "\<forall>a \<in> set b. action_projectAddress a = projectAddress (project m) \<and>
                 action_name a \<noteq> ''accrueInterest'' \<and>
                 (\<exists>p \<in> set (positions m). action_tokenId a = Some (tokenId p))"
    by blast
  let ?acc = "\<lparr>action_projectAddress = projectAddress (project m), action_tokenId = None,
             action_name = ''accrueInterest'', txHash = tx\<rparr>"
  have "collect_follows_decrease ([?acc] @ b)"
    by (rule collect_follows_decrease_append [OF _ d]) (simp add: collect_follows_decrease_def)
  moreover have "approvals_precede_increase ([?acc] @ b)"
    by (rule approvals_precede_increase_append [OF _ a]) (simp add: approvals_precede_increase_def)
  moreover have "actions st' = actions st @ (?acc # b)" using s1 b by simp
  ultimately show ?thesis using True own
    by (auto simp: project_block_def position_actions_def)
qed

lemma project_block_address:
  "project_block m blk \<Longrightarrow> a \<in> set blk \<Longrightarrow> action_projectAddress a = projectAddress (project m)"
  by (auto simp: project_block_def position_actions_def split: if_splits)

lemma rebalance_all_block:
  "rebalance_all chain cfg pk caller metrics st = (None, st') \<Longrightarrow>
   \<exists>blk. actions st' = actions st @ blk \<and>
         collect_follows_decrease blk \<and> approvals_precede_increase blk \<and>
         (\<forall>a \<in> set blk. \<exists>m \<in> set metrics. action_projectAddress a = projectAddress (project m)) \<and>
         (distinct (map (\<lambda>m. projectAddress (project m)) metrics) \<longrightarrow>
            (\<forall>m \<in> set metrics.
               project_block m (filter (\<lambda>a. action_projectAddress a = projectAddress (project m)) blk)))"
proof (induction metrics arbitrary: st)
  case Nil
  then show ?case
    by (simp add: collect_follows_decrease_def approvals_precede_increase_def)
next
  case (Cons m metrics)
  from Cons.prems obtain s1 where
    one: "rebalance_project chain cfg pk caller m st = (None, s1)"
    and rest: "rebalance_all chain cfg pk caller metrics s1 = (None, st')"
    by (auto simp: and_then_None)
  from rebalance_project_block [OF one] obtain b1 where
    b1: "actions s1 = actions st @ b1" and blk1: "project_block m b1"
    by blast
  from Cons.IH [OF rest] obtain b2 where
    ih: "actions st' = actions s1 @ b2 \<and>
         collect_follows_decrease b2 \<and> approvals_precede_increase b2 \<and>
         (\<forall>a \<in> set b2. \<exists>m \<in> set metrics. action_projectAddress a = projectAddress (project m)) \<and>
         (distinct (map (\<lambda>m. projectAddress (project m)) metrics) \<longrightarrow>
            (\<forall>m \<in> set metrics.
               project_block m (filter (\<lambda>a. action_projectAddress a = projectAddress (project m)) b2)))"
    by (rule exE)
  have b2: "actions st' = actions s1 @ b2"
    and d2: "collect_follows_decrease b2" and a2: "approvals_precede_increase b2"
    and own2: "\<forall>a \<in> set b2. \<exists>m \<in> set metrics. action_projectAddress a = projectAddress (project m)"
    and per2: "distinct (map (\<lambda>m. projectAddress (project m)) metrics) \<longrightarrow>
            (\<forall>m \<in> set metrics.
               project_block m (filter (\<lambda>a. action_projectAddress a = projectAddress (project m)) b2))"
    using ih by simp_all
  have d1: "collect_follows_decrease b1" and a1: "approvals_precede_increase b1"
    using blk1 by (simp_all add: project_block_def)
  have own1: "\<forall>a \<in> set b1. action_projectAddress a = projectAddress (project m)"
    using blk1 by (auto dest: project_block_address)
  show ?case
  proof (intro exI [of _ "b1 @ b2"] conjI impI ballI)
    show "actions st' = actions st @ b1 @ b2" using b1 b2 by simp
    show "collect_follows_decrease (b1 @ b2)"
      using d1 d2 by (rule collect_follows_decrease_append)
    show "approvals_precede_increase (b1 @ b2)"
      using a1 a2 by (rule approvals_precede_increase_append)
  next
    fix a assume "a \<in> set (b1 @ b2)"
    then consider "a \<in> set b1" | "a \<in> set b2" by auto
    then show "\<exists>m' \<in> set (m # metrics). action_projectAddress a = projectAddress (project m')"
    proof cases
      case 1
      then show ?thesis using own1 by simp
    next
      case 2
      then obtain m' where "m' \<in> set metrics"
        "action_projectAddress a = projectAddress (project m')"
        using own2 by blast
      then show ?thesis by auto
    qed
  next
    fix m'
    assume dist: "distinct (map (\<lambda>m. projectAddress (project m)) (m # metrics))"
      and m': "m' \<in> set (m # metrics)"
    have fresh: "projectAddress (project m) \<notin> set (map (\<lambda>m. projectAddress (project m)) metrics)"
      and dist': "distinct (map (\<lambda>m. projectAddress (project m)) metrics)"
      using dist by simp_all
    show "project_block m' (filter (\<lambda>a. action_projectAddress a = projectAddress (project m')) (b1 @ b2))"
    proof (cases "projectAddress (project m') = projectAddress (project m)")
      case True
      have "m' \<notin> set metrics"
      proof
        assume "m' \<in> set metrics"
        then have "projectAddress (project m') \<in> (\<lambda>m. projectAddress (project m)) ` set metrics"
          by (rule imageI)
        with fresh True show False by simp
      qed
      then have same: "m' = m" using m' by simp
      have "filter (\<lambda>a. action_projectAddress a = projectAddress (project m)) b1 = b1"
        using own1 by simp
      moreover have "filter (\<lambda>a. action_projectAddress a = projectAddress (project m)) b2 = []"
      proof -
        have "\<forall>a \<in> set b2. action_projectAddress a \<noteq> projectAddress (project m)"
        proof (intro ballI notI)
          fix a
          assume "a \<in> set b2" and eq: "action_projectAddress a = projectAddress (project m)"
          then obtain m2 where m2: "m2 \<in> set metrics"
            and "action_projectAddress a = projectAddress (project m2)"
            using own2 by blast
          then have "projectAddress (project m) = projectAddress (project m2)" using eq by simp
          moreover have "projectAddress (project m2) \<in> (\<lambda>m. projectAddress (project m)) ` set metrics"
            using m2 by (rule imageI)
          ultimately show False using fresh by simp
        qed
        then show ?thesis by (simp add: filter_empty_conv)
      qed
      ultimately show ?thesis using blk1 same by simp
    next
      case False
      then have in_rest: "m' \<in> set metrics" using m' by auto
      have "filter (\<lambda>a. action_projectAddress a = projectAddress (project m')) b1 = []"
        using own1 False by (auto simp: filter_empty_conv)
      then show ?thesis using per2 dist' in_rest by simp
    qed
  qed
qed

text \<open>
  C1. The claim asks that a position whose quarter rounds to zero is still rebalanced,
  with its full liquidity removed. The loop body computes that fallback in the arguments
  of the decrease call, but the guard before it leaves the position first: for a
  position with liquidity 3 (\<open>3 * 2500 div 10000 = 0\<close>) of a project whose direction is
  decrease, the body issues no call and records nothing.
\<close>

theorem rebalance_position_dust_skipped:
  "rebalance_position chain networkConfig pkpPublicKey pkpAddress
     (metric\<lparr>metric_direction := decrease\<rparr>) (position\<lparr>liquidity := 3\<rparr>) st = (None, st)"
  by (simp add: rebalance_position_def bn_div_def DEFAULT_REBALANCE_LIQUIDITY_BPS_def)

text \<open>
  C2. With a target pool price of zero for the first project, \<open>precheck\<close> fails with the
  reason NAV_TARGET_ZERO, while \<open>execute\<close>, on the same chain, fails with the reason
  PROVIDER_ERROR: its handler looks for \<open>registry address\<close> in the message only.
\<close>

theorem execute_target_zero_reason:
  "execute (demo_chain 0 900000000000000000) 0 demo_params demo_delegation =
     Fail \<lparr>fail_reason = PROVIDER_ERROR,
           fail_error = ''Target pool price returned 0 from CornerstoneProject''\<rparr> \<and>
   precheck (demo_chain 0 900000000000000000) demo_params demo_delegation =
     Fail \<lparr>fail_reason = NAV_TARGET_ZERO,
           fail_error = ''Target pool price returned 0 from CornerstoneProject''\<rparr>"
  by code_simp

text \<open>
  C8. In every run of the rebalance loop that completes, over projects with pairwise
  different addresses: the records of an eligible project start with its
  \<open>accrueInterest\<close> record, and all its other records are records of its positions;
  every \<open>decreaseLiquidity\<close> record is immediately followed by the \<open>collect\<close> record of
  the same position; every approval record is followed, at most one record later, by the
  \<open>increaseLiquidity\<close> record of the same position.
\<close>

theorem rebalance_all_order:
  assumes "rebalance_all chain networkConfig pkpPublicKey pkpAddress metrics
             \<lparr>actions = [], calls = [], world = w\<rparr> = (None, st)"
    and "distinct (map (\<lambda>m. projectAddress (project m)) metrics)"
  shows "(\<forall>metric \<in> set metrics. shouldRebalance metric \<longrightarrow>
            (\<exists>tx rest.
               filter (\<lambda>a. action_projectAddress a = projectAddress (project metric)) (actions st) =
                 \<lparr>action_projectAddress = projectAddress (project metric), action_tokenId = None,
                  action_name = ''accrueInterest'', txHash = tx\<rparr> # rest \<and>
               position_actions metric rest)) \<and>
         collect_follows_decrease (actions st) \<and>
         approvals_precede_increase (actions st)"
proof -
  from rebalance_all_block [OF assms(1)] obtain blk where
    blk: "actions st = blk"
    and d: "collect_follows_decrease blk" and a: "approvals_precede_increase blk"
    and per: "\<forall>m \<in> set metrics.
               project_block m (filter (\<lambda>a. action_projectAddress a = projectAddress (project m)) blk)"
    using assms(2) by auto
  have "\<exists>tx rest.
          filter (\<lambda>a. action_projectAddress a = projectAddress (project metric)) (actions st) =
            \<lparr>action_projectAddress = projectAddress (project metric), action_tokenId = None,
             action_name = ''accrueInterest'', txHash = tx\<rparr> # rest \<and>
          position_actions metric rest"
    if "metric \<in> set metrics" and "shouldRebalance metric" for metric
    using per that blk by (simp add: project_block_def)
  then show ?thesis using d a blk by blast
qed

theorem rebalance_all_order_witness:
  "fst demo_run = None \<and>
   distinct (map (\<lambda>m. projectAddress (project m)) demo_metrics) \<and>
   demo_metrics ! 1 \<in> set demo_metrics \<and>
   shouldRebalance (demo_metrics ! 1) \<and>
   map action_name (actions (snd demo_run)) =
     [''accrueInterest'', ''decreaseLiquidity'', ''collect'',
      ''accrueInterest'', ''approveToken0'', ''approveToken1'', ''increaseLiquidity''] \<and>
   (\<exists>tx rest.
      filter (\<lambda>a. action_projectAddress a = projectAddress (project (demo_metrics ! 1)))
        (actions (snd demo_run)) =
        \<lparr>action_projectAddress = projectAddress (project (demo_metrics ! 1)),
         action_tokenId = None, action_name = ''accrueInterest'', txHash = tx\<rparr> # rest \<and>
      position_actions (demo_metrics ! 1) rest) \<and>
   collect_follows_decrease (actions (snd demo_run)) \<and>
   approvals_precede_increase (actions (snd demo_run))"
proof -
  have none: "fst demo_run = None" by code_simp
  have dist: "distinct (map (\<lambda>m. projectAddress (project m)) demo_metrics)" by code_simp
  have member: "demo_metrics ! 1 \<in> set demo_metrics"
    by (rule nth_mem) (simp add: demo_metrics_def)
  have eligible: "shouldRebalance (demo_metrics ! 1)" by code_simp
  have names: "map action_name (actions (snd demo_run)) =
     [''accrueInterest'', ''decreaseLiquidity'', ''collect'',
      ''accrueInterest'', ''approveToken0'', ''approveToken1'', ''increaseLiquidity'']"
    by code_simp
  have run: "rebalance_all (demo_chain 0 0) demo_config ''0x04Key'' ''0xPKP'' demo_metrics
       \<lparr>actions = [], calls = [], world = 0\<rparr> = (None, snd demo_run)"
    using none by (simp add: demo_run_def prod_eq_iff)
  note order = rebalance_all_order [OF run dist]
  note first = order [THEN conjunct1, THEN bspec, OF member, THEN mp, OF eligible]
  note collect = order [THEN conjunct2, THEN conjunct1]
  note approve = order [THEN conjunct2, THEN conjunct2]
  show ?thesis
    by (intro conjI none dist member eligible names first collect approve)
qed

section \<open>Properties of the execution report\<close>

lemma call_and_record_calls:
  "calls (snd (call_and_record chain request addr tid nm st)) = calls st @ [request]"
  by (simp add: call_and_record_def split: prod.splits sum.splits)

lemma and_then_calls:
  assumes "\<exists>cs. calls (snd r) = calls st @ cs"
    and "\<And>s. \<exists>cs. calls (snd (f s)) = calls s @ cs"
  shows "\<exists>cs. calls (snd (and_then r f)) = calls st @ cs"
proof (cases r)
  case (Pair e s)
  show ?thesis
  proof (cases e)
    case None
    from assms(1) Pair obtain cs where cs: "calls s = calls st @ cs" by auto
    from assms(2) [of s] obtain cs' where "calls (snd (f s)) = calls s @ cs'" by auto
    with cs have "calls (snd (f s)) = calls st @ (cs @ cs')" by simp
    then show ?thesis using Pair None by (auto simp: and_then_def)
  next
    case (Some err)
    then show ?thesis using assms(1) Pair by (simp add: and_then_def)
  qed
qed

lemma collect_projects_distinct:
  "collect_projects chain evs acc = Inr ps \<Longrightarrow> distinct (map projectAddress acc) \<Longrightarrow>
   distinct (map projectAddress ps)"
proof (induction evs arbitrary: acc)
  case Nil
  then show ?case by simp
next
  case (Cons ev evs)
  show ?case
  proof (cases "case args ev of None \<Rightarrow> None | Some a \<Rightarrow> args_project a")
    case None
    with Cons show ?thesis by simp
  next
    case p: (Some project_address)
    show ?thesis
    proof (cases "case args ev of None \<Rightarrow> None | Some a \<Rightarrow> args_token a")
      case None
      with Cons p show ?thesis by simp
    next
      case t: (Some token_address)
      show ?thesis
      proof (cases "project_address = [] \<or> token_address = [] \<or>
                    project_address \<in> set (map projectAddress acc)")
        case True
        with Cons.prems(1) p t have "collect_projects chain evs acc = Inr ps"
          by (auto split: if_splits)
        then show ?thesis using Cons.prems(2) by (rule Cons.IH)
      next
        case False
        with Cons.prems(1) p t obtain pyusd_address where
          rest: "collect_projects chain evs
                   (acc @ [\<lparr>projectAddress = project_address, tokenAddress = token_address,
                            pyusdAddress = pyusd_address\<rparr>]) = Inr ps"
          by (auto split: sum.splits)
        have "distinct (map projectAddress
                (acc @ [\<lparr>projectAddress = project_address, tokenAddress = token_address,
                         pyusdAddress = pyusd_address\<rparr>]))"
          using Cons.prems(2) False by simp
        with rest show ?thesis by (rule Cons.IH)
      qed
    qed
  qed
qed

lemma fetchProjectMetrics_project:
  "fetchProjectMetrics chain proj cfg = Inr metric \<Longrightarrow> project metric = proj \<and> positions metric = []"
  by (auto simp: fetchProjectMetrics_def split: sum.splits if_splits prod.splits)

lemma fetch_all_metrics_projects:
  "fetch_all_metrics chain cfg ps = Inr ms \<Longrightarrow>
   map project ms = ps \<and> (\<forall>m \<in> set ms. positions m = [])"
proof (induction ps arbitrary: ms)
  case Nil
  then show ?case by simp
next
  case (Cons proj ps)
  from Cons.prems obtain metric rest where
    one: "fetchProjectMetrics chain proj cfg = Inr metric"
    and all: "fetch_all_metrics chain cfg ps = Inr rest"
    and ms: "ms = metric # rest"
    by (auto split: sum.splits)
  from fetchProjectMetrics_project [OF one] Cons.IH [OF all] ms show ?case by simp
qed

lemma attach_loop_project:
  "map project (attach_loop tbl ps ms) = map project ms"
proof (induction ps arbitrary: ms)
  case Nil
  then show ?case by simp
next
  case (Cons p ps)
  have "map project (case tbl (position_key p) of None \<Rightarrow> ms
          | Some i \<Rightarrow> ms[i := (ms ! i)\<lparr>positions := positions (ms ! i) @ [p]\<rparr>]) = map project ms"
  proof (cases "tbl (position_key p)")
    case None
    then show ?thesis by simp
  next
    case (Some i)
    show ?thesis
    proof (cases "i < length ms")
      case True
      then show ?thesis using Some by (simp add: map_update list_update_same_conv)
    next
      case False
      then have "ms[i := (ms ! i)\<lparr>positions := positions (ms ! i) @ [p]\<rparr>] = ms"
        by (simp add: list_update_beyond)
      then show ?thesis using Some by simp
    qed
  qed
  then show ?case using Cons.IH by simp
qed

lemma attachPositionsToProjects_project:
  "map project (attachPositionsToProjects ms ps) = map project ms"
  by (simp add: attachPositionsToProjects_def attach_loop_project)


lemma calls_refl: "\<exists>cs. calls st = calls st @ cs"
  by simp

lemma call_and_record_extends:
  "\<exists>cs. calls (snd (call_and_record chain request addr tid nm st)) = calls st @ cs"
  by (simp add: call_and_record_calls)

lemma approve_if_needed_extends:
  "\<exists>cs. calls (snd (approve_if_needed chain cfg pk caller m p token nm bal allow st)) = calls st @ cs"
  by (simp add: approve_if_needed_def call_and_record_calls)

lemma rebalance_position_extends:
  "\<exists>cs. calls (snd (rebalance_position chain cfg pk caller m p st)) = calls st @ cs"
proof (cases "liquidity p = 0")
  case True
  then show ?thesis by (simp add: rebalance_position_def)
next
  case nz: False
  obtain use where use: "bn_div (liquidity p * DEFAULT_REBALANCE_LIQUIDITY_BPS) 10000 = Inr use"
    by (simp add: bn_div_def)
  show ?thesis
  proof (cases "use = 0 \<and> metric_direction m = decrease")
    case True
    with nz use show ?thesis by (simp add: rebalance_position_def)
  next
    case go: False
    show ?thesis
    proof (cases "metric_direction m")
      case none
      with nz use show ?thesis by (simp add: rebalance_position_def)
    next
      case decrease
      have "\<exists>cs. calls (snd (and_then (call_and_record chain c1 a t n st)
                                  (call_and_record chain c2 a' t' n'))) = calls st @ cs"
        for c1 c2 a t n a' t' n'
        by (intro and_then_calls call_and_record_extends)
      with nz use go decrease show ?thesis by (simp add: rebalance_position_def)
    next
      case increase
      have inc: "\<exists>cs. calls (snd (and_then
                (and_then
                   (approve_if_needed chain cfg pk caller m p tk0 n0 b0 a0 st)
                   (approve_if_needed chain cfg pk caller m p tk1 n1 b1 a1))
                (\<lambda>st'. call_and_record chain (c st') a t n st'))) = calls st @ cs"
        for tk0 n0 b0 a0 tk1 n1 b1 a1 c a t n
        by (intro and_then_calls call_and_record_extends approve_if_needed_extends)
      show ?thesis
      proof (cases "erc20_balanceOf chain (world st) (token0 p) caller")
        case (Inl e)
        with nz use go increase show ?thesis by (simp add: rebalance_position_def)
      next
        case b0: (Inr balance0)
        show ?thesis
        proof (cases "erc20_balanceOf chain (world st) (token1 p) caller")
          case (Inl e)
          with nz use go increase b0 show ?thesis by (simp add: rebalance_position_def)
        next
          case b1: (Inr balance1)
          show ?thesis
          proof (cases "erc20_allowance chain (world st) (token0 p) caller (positionManager cfg)")
            case (Inl e)
            with nz use go increase b0 b1 show ?thesis by (simp add: rebalance_position_def)
          next
            case a0: (Inr allowance0)
            show ?thesis
            proof (cases "erc20_allowance chain (world st) (token1 p) caller (positionManager cfg)")
              case (Inl e)
              with nz use go increase b0 b1 a0 show ?thesis by (simp add: rebalance_position_def)
            next
              case a1: (Inr allowance1)
              show ?thesis
              proof (cases "balance0 = 0 \<and> balance1 = 0")
                case True
                with nz use go increase b0 b1 a0 a1 show ?thesis
                  by (simp add: rebalance_position_def)
              next
                case False
                have "rebalance_position chain cfg pk caller m p st =
                  and_then
                    (and_then
                       (approve_if_needed chain cfg pk caller m p (token0 p) ''approveToken0''
                          balance0 allowance0 st)
                       (approve_if_needed chain cfg pk caller m p (token1 p) ''approveToken1''
                          balance1 allowance1))
                    (\<lambda>st'. call_and_record chain
                       \<lparr>call_pkpPublicKey = pk, callerAddress = caller,
                        contractAddress = positionManager cfg,
                        functionName = ''increaseLiquidity'',
                        call_args = IncreaseLiquidityArgs (tokenId p) balance0 balance1
                          0 0 (Date_now chain (world st') div 1000 + 900)\<rparr>
                       (projectAddress (project m)) (Some (tokenId p))
                       ''increaseLiquidity'' st')"
                proof -
                  have both: "(balance0 = 0 \<and> balance1 = 0) = False" using False by simp
                  show ?thesis
                    using nz use go increase b0 b1 a0 a1
                    by (simp add: rebalance_position_def both)
                qed
                then show ?thesis by (simp only: inc)
              qed
            qed
          qed
        qed
      qed
    qed
  qed
qed

lemma rebalance_positions_extends:
  "\<exists>cs. calls (snd (rebalance_positions chain cfg pk caller m ps st)) = calls st @ cs"
proof (induction ps arbitrary: st)
  case Nil
  show ?case by simp
next
  case (Cons p ps)
  show ?case
    unfolding rebalance_positions.simps
    by (rule and_then_calls [OF rebalance_position_extends Cons.IH])
qed

lemma rebalance_project_first_call:
  assumes "shouldRebalance m"
  shows "\<exists>rest. calls (snd (rebalance_project chain cfg pk caller m st)) =
           calls st @
             \<lparr>call_pkpPublicKey = pk, callerAddress = caller,
              contractAddress = projectAddress (project m),
              functionName = ''accrueInterest'', call_args = NoArgs\<rparr> # rest"
proof -
  let ?c = "\<lparr>call_pkpPublicKey = pk, callerAddress = caller,
              contractAddress = projectAddress (project m),
              functionName = ''accrueInterest'', call_args = NoArgs\<rparr>"
  obtain e s1 where first: "call_and_record chain ?c (projectAddress (project m)) None
                               ''accrueInterest'' st = (e, s1)"
    by (cases "call_and_record chain ?c (projectAddress (project m)) None ''accrueInterest'' st")
  have s1: "calls s1 = calls st @ [?c]"
    using call_and_record_calls [of chain ?c "projectAddress (project m)" None "''accrueInterest''" st]
      first by simp
  show ?thesis
  proof (cases e)
    case (Some err)
    then show ?thesis using assms first s1 by (simp add: rebalance_project_def and_then_def)
  next
    case None
    obtain cs where "calls (snd (rebalance_positions chain cfg pk caller m (positions m) s1)) =
        calls s1 @ cs"
      using rebalance_positions_extends by blast
    then show ?thesis using assms first s1 None by (simp add: rebalance_project_def and_then_def)
  qed
qed



lemma execute_report_shape:
  assumes "execute chain w params deleg = Succeed report"
  shows "\<exists>cfg pk caller metrics st.
           rebalance_all chain cfg pk caller metrics \<lparr>actions = [], calls = [], world = w\<rparr> = (None, st) \<and>
           distinct (map (\<lambda>m. projectAddress (project m)) metrics) \<and>
           e_projects report =
             map (\<lambda>metric.
                    \<lparr>summary = summarizeMetric metric,
                     report_actions =
                       filter (\<lambda>action. action_projectAddress action = projectAddress (project metric))
                         (actions st)\<rparr>) metrics"
proof -
  from assms have tried: "execute_try chain w params deleg = Inr report"
    by (simp add: execute_def split: sum.splits)
  then obtain cfg projects metrics pk caller owned st where
    projects: "discoverProjects chain (registryAddress params) = Inr projects"
    and metrics: "fetch_all_metrics chain cfg projects = Inr metrics"
    and run: "rebalance_all chain cfg pk caller (attachPositionsToProjects metrics owned)
                \<lparr>actions = [], calls = [], world = w\<rparr> = (None, st)"
    and rep: "e_projects report =
             map (\<lambda>metric.
                    \<lparr>summary = summarizeMetric metric,
                     report_actions =
                       filter (\<lambda>action. action_projectAddress action = projectAddress (project metric))
                         (actions st)\<rparr>) (attachPositionsToProjects metrics owned)"
    by (auto simp: execute_try_def Let_def
             split: if_splits sum.splits option.splits prod.splits)
  from projects have "distinct (map projectAddress projects)"
    by (auto simp: discoverProjects_def split: sum.splits dest: collect_projects_distinct)
  moreover have "map project (attachPositionsToProjects metrics owned) = projects"
    using fetch_all_metrics_projects [OF metrics] by (simp add: attachPositionsToProjects_project)
  ultimately have "distinct (map (projectAddress \<circ> project)
                      (attachPositionsToProjects metrics owned))"
    by (simp flip: map_map)
  then have "distinct (map (\<lambda>m. projectAddress (project m))
                      (attachPositionsToProjects metrics owned))"
    by (simp add: comp_def)
  with run rep show ?thesis by blast
qed

lemma execute_ineligible_no_actions:
  assumes "execute chain w params deleg = Succeed report"
    and "pr \<in> set (e_projects report)"
    and "r_direction (summary pr) = none \<or> r_deviationBps (summary pr) < 150"
  shows "report_actions pr = []"
proof -
  from execute_report_shape [OF assms(1)] obtain cfg pk caller metrics st where
    run: "rebalance_all chain cfg pk caller metrics \<lparr>actions = [], calls = [], world = w\<rparr> = (None, st)"
    and dist: "distinct (map (\<lambda>m. projectAddress (project m)) metrics)"
    and rep: "e_projects report =
             map (\<lambda>metric.
                    \<lparr>summary = summarizeMetric metric,
                     report_actions =
                       filter (\<lambda>action. action_projectAddress action = projectAddress (project metric))
                         (actions st)\<rparr>) metrics"
    by blast
  from assms(2) rep obtain m where m: "m \<in> set metrics"
    and pr: "pr = \<lparr>summary = summarizeMetric m,
                   report_actions =
                     filter (\<lambda>action. action_projectAddress action = projectAddress (project m))
                       (actions st)\<rparr>"
    by auto
  have "\<not> shouldRebalance m"
    using assms(3) pr
    by (auto simp: shouldRebalance_def summarizeMetric_def DEFAULT_DEVIATION_THRESHOLD_BPS_def)
  moreover from rebalance_all_block [OF run] dist m
  have "project_block m (filter (\<lambda>a. action_projectAddress a = projectAddress (project m)) (actions st))"
    by auto
  ultimately show ?thesis using pr by (simp add: project_block_def)
qed

text \<open>
  C9. A project is rebalanced iff its direction is not none and its deviation is at least
  150 basis points. The loop body leaves the run as it is for a project that is not
  eligible (no record, no call to the dispatcher, the same world), and for an eligible
  project it hands the \<open>accrueInterest\<close> call to the dispatcher first. In every
  execution report, a project whose direction is none or whose deviation is below 150
  basis points (50, for one) has no actions.
\<close>

theorem shouldRebalance_gate:
  "(shouldRebalance metric \<longleftrightarrow>
      metric_direction metric \<noteq> none \<and> metric_deviationBps metric \<ge> 150) \<and>
   (\<not> shouldRebalance skipped \<longrightarrow>
      rebalance_project chain networkConfig pkpPublicKey pkpAddress skipped st = (None, st)) \<and>
   (shouldRebalance eligible \<longrightarrow>
      (\<exists>rest. calls (snd (rebalance_project chain networkConfig pkpPublicKey pkpAddress eligible st)) =
         calls st @
           \<lparr>call_pkpPublicKey = pkpPublicKey, callerAddress = pkpAddress,
            contractAddress = projectAddress (project eligible),
            functionName = ''accrueInterest'', call_args = NoArgs\<rparr> # rest)) \<and>
   (execute chain' w params deleg = Succeed report \<longrightarrow>
      (\<forall>pr \<in> set (e_projects report).
         r_direction (summary pr) = none \<or> r_deviationBps (summary pr) < 150 \<longrightarrow>
         report_actions pr = []))"
proof (intro conjI impI ballI)
  show "shouldRebalance metric \<longleftrightarrow>
      metric_direction metric \<noteq> none \<and> metric_deviationBps metric \<ge> 150"
    by (simp add: shouldRebalance_def DEFAULT_DEVIATION_THRESHOLD_BPS_def)
next
  assume "\<not> shouldRebalance skipped"
  then show "rebalance_project chain networkConfig pkpPublicKey pkpAddress skipped st = (None, st)"
    by (simp add: rebalance_project_def)
next
  assume "shouldRebalance eligible"
  then show "\<exists>rest. calls (snd (rebalance_project chain networkConfig pkpPublicKey pkpAddress eligible st)) =
         calls st @
           \<lparr>call_pkpPublicKey = pkpPublicKey, callerAddress = pkpAddress,
            contractAddress = projectAddress (project eligible),
            functionName = ''accrueInterest'', call_args = NoArgs\<rparr> # rest"
    by (rule rebalance_project_first_call)
next
  fix pr
  assume "execute chain' w params deleg = Succeed report"
    and "pr \<in> set (e_projects report)"
    and "r_direction (summary pr) = none \<or> r_deviationBps (summary pr) < 150"
  then show "report_actions pr = []"
    by (rule execute_ineligible_no_actions)
qed

theorem shouldRebalance_gate_witness:
  "\<not> shouldRebalance (demo_metric ''0xA1'' ''0xAa'' 50 increase []) \<and>
   rebalance_project (demo_chain 0 0) demo_config ''0x04Key'' ''0xPKP''
     (demo_metric ''0xA1'' ''0xAa'' 50 increase [])
     \<lparr>actions = [], calls = [], world = 0\<rparr> = (None, \<lparr>actions = [], calls = [], world = 0\<rparr>) \<and>
   shouldRebalance (demo_metric ''0xB1'' ''0xBb'' 150 decrease []) \<and>
   (\<exists>rest. calls (snd (rebalance_project (demo_chain 0 0) demo_config ''0x04Key'' ''0xPKP''
                        (demo_metric ''0xB1'' ''0xBb'' 150 decrease [])
                        \<lparr>actions = [], calls = [], world = 0\<rparr>)) =
      calls \<lparr>actions = [], calls = [], world = 0::nat\<rparr> @
        \<lparr>call_pkpPublicKey = ''0x04Key'', callerAddress = ''0xPKP'',
         contractAddress = projectAddress (project (demo_metric ''0xB1'' ''0xBb'' 150 decrease [])),
         functionName = ''accrueInterest'', call_args = NoArgs\<rparr> # rest) \<and>
   execute (demo_chain 1005030000000000000 900000000000000000) 0 demo_params demo_delegation =
     Succeed demo_report \<and>
   e_projects demo_report ! 0 \<in> set (e_projects demo_report) \<and>
   r_deviationBps (summary (e_projects demo_report ! 0)) = 50 \<and>
   report_actions (e_projects demo_report ! 0) = []"
proof -
  have skipped: "\<not> shouldRebalance (demo_metric ''0xA1'' ''0xAa'' 50 increase [])"
    by code_simp
  have eligible: "shouldRebalance (demo_metric ''0xB1'' ''0xBb'' 150 decrease [])"
    by code_simp
  have run: "execute (demo_chain 1005030000000000000 900000000000000000) 0 demo_params
      demo_delegation = Succeed demo_report"
    by code_simp
  have member: "e_projects demo_report ! 0 \<in> set (e_projects demo_report)"
    by (rule nth_mem) (simp add: demo_report_def)
  have bps: "r_deviationBps (summary (e_projects demo_report ! 0)) = 50"
    by (simp add: demo_report_def)
  have low: "r_direction (summary (e_projects demo_report ! 0)) = none \<or>
             r_deviationBps (summary (e_projects demo_report ! 0)) < 150"
    by (simp add: bps)
  note gate = shouldRebalance_gate
    [where skipped = "demo_metric ''0xA1'' ''0xAa'' 50 increase []"
       and eligible = "demo_metric ''0xB1'' ''0xBb'' 150 decrease []"
       and chain = "demo_chain 0 0" and networkConfig = demo_config
       and pkpPublicKey = "''0x04Key''" and pkpAddress = "''0xPKP''"
       and st = "\<lparr>actions = [], calls = [], world = 0\<rparr>"
       and chain' = "demo_chain 1005030000000000000 900000000000000000"
       and w = 0 and params = demo_params and deleg = demo_delegation and report = demo_report]
  note unchanged = gate [THEN conjunct2, THEN conjunct1, THEN mp, OF skipped]
  note accrued = gate [THEN conjunct2, THEN conjunct2, THEN conjunct1, THEN mp, OF eligible]
  note quiet = gate [THEN conjunct2, THEN conjunct2, THEN conjunct2, THEN mp, OF run,
                     THEN bspec, OF member, THEN mp, OF low]
  show ?thesis
    by (intro conjI skipped unchanged eligible accrued run member bps quiet)
qed

section \<open>Properties of the matching\<close>

lemma toLowerCase_char_colon: "toLowerCase_char c = CHR '':'' \<longleftrightarrow> c = CHR '':''"
  by (auto simp: toLowerCase_char_def split: if_splits)

lemma toLowerCase_colon: "CHR '':'' \<in> set (toLowerCase s) \<longleftrightarrow> CHR '':'' \<in> set s"
proof (induction s)
  case Nil
  show ?case by (simp add: toLowerCase_def)
next
  case (Cons c s)
  have "(CHR '':'' = toLowerCase_char c) = (CHR '':'' = c)"
    using toLowerCase_char_colon [of c] by auto
  with Cons show ?case by (simp add: toLowerCase_def)
qed

lemma colon_split:
  "x @ '':'' @ y = x' @ '':'' @ y' \<Longrightarrow> CHR '':'' \<notin> set x \<Longrightarrow> CHR '':'' \<notin> set x' \<Longrightarrow>
   x = x' \<and> y = y'"
proof (induction x arbitrary: x')
  case Nil
  then show ?case by (cases x') auto
next
  case (Cons a as)
  then show ?case by (cases x') auto
qed

lemma pair_key_commute: "pair_key a b = pair_key b a"
  by (auto simp: pair_key_def Let_def)

lemma pair_key_case: 
  "toLowerCase a = toLowerCase a' \<Longrightarrow> toLowerCase b = toLowerCase b' \<Longrightarrow>
   pair_key a b = pair_key a' b'"
  by (simp add: pair_key_def)

lemma pair_key_eq_iff:
  assumes "CHR '':'' \<notin> set a" "CHR '':'' \<notin> set b" "CHR '':'' \<notin> set c" "CHR '':'' \<notin> set d"
  shows "pair_key a b = pair_key c d \<longleftrightarrow>
         {toLowerCase a, toLowerCase b} = {toLowerCase c, toLowerCase d}"
proof -
  have sorted_eq: "(x @ CHR '':'' # y = x' @ CHR '':'' # y') = (x = x' \<and> y = y')"
    if "CHR '':'' \<notin> set x" "CHR '':'' \<notin> set x'" for x y x' y' :: string
    using that colon_split [of x y x' y'] by auto
  have free: "CHR '':'' \<notin> set (toLowerCase a)" "CHR '':'' \<notin> set (toLowerCase b)"
    "CHR '':'' \<notin> set (toLowerCase c)" "CHR '':'' \<notin> set (toLowerCase d)"
    using assms by (simp_all add: toLowerCase_colon)
  show ?thesis
    unfolding pair_key_def Let_def
    by (auto simp: sorted_eq free doubleton_eq_iff)
qed

lemma projectTokenPairs_absent:
  "\<forall>j < length ms. project_key (ms ! j) \<noteq> k \<Longrightarrow> projectTokenPairs n ms tbl k = tbl k"
proof (induction ms arbitrary: n tbl)
  case Nil
  show ?case by simp
next
  case (Cons m ms)
  from Cons.prems have head: "project_key m \<noteq> k"
    and tail: "\<forall>j < length ms. project_key (ms ! j) \<noteq> k"
    by (auto simp: All_less_Suc2)
  show ?case using Cons.IH [OF tail] head by simp
qed

lemma projectTokenPairs_last:
  "i < length ms \<Longrightarrow> project_key (ms ! i) = k \<Longrightarrow>
   \<forall>j < length ms. i < j \<longrightarrow> project_key (ms ! j) \<noteq> k \<Longrightarrow>
   projectTokenPairs n ms tbl k = Some (n + i)"
proof (induction ms arbitrary: n i tbl)
  case Nil
  then show ?case by simp
next
  case (Cons m ms)
  show ?case
  proof (cases i)
    case 0
    with Cons.prems have "\<forall>j < length ms. project_key (ms ! j) \<noteq> k" "project_key m = k"
      by (auto simp: All_less_Suc2)
    then show ?thesis using 0 by (simp add: projectTokenPairs_absent)
  next
    case (Suc i')
    with Cons.prems have "i' < length ms" "project_key (ms ! i') = k"
      "\<forall>j < length ms. i' < j \<longrightarrow> project_key (ms ! j) \<noteq> k"
      by (auto simp: All_less_Suc2)
    from Cons.IH [OF this] show ?thesis using Suc by simp
  qed
qed

lemma last_index_exists:
  "\<exists>j < length ms. project_key (ms ! j) = k \<Longrightarrow>
   \<exists>i < length ms. project_key (ms ! i) = k \<and>
      (\<forall>j < length ms. i < j \<longrightarrow> project_key (ms ! j) \<noteq> k)"
proof (induction ms)
  case Nil
  then show ?case by simp
next
  case (Cons m ms)
  show ?case
  proof (cases "\<exists>j < length ms. project_key (ms ! j) = k")
    case True
    from Cons.IH [OF True] obtain i where "i < length ms" "project_key (ms ! i) = k"
      "\<forall>j < length ms. i < j \<longrightarrow> project_key (ms ! j) \<noteq> k"
      by blast
    then have "Suc i < length (m # ms) \<and> project_key ((m # ms) ! Suc i) = k \<and>
      (\<forall>j < length (m # ms). Suc i < j \<longrightarrow> project_key ((m # ms) ! j) \<noteq> k)"
      by (auto simp: All_less_Suc2)
    then show ?thesis by blast
  next
    case False
    with Cons.prems have "project_key m = k" by (auto simp: Ex_less_Suc2)
    with False have "0 < length (m # ms) \<and> project_key ((m # ms) ! 0) = k \<and>
      (\<forall>j < length (m # ms). 0 < j \<longrightarrow> project_key ((m # ms) ! j) \<noteq> k)"
      by (auto simp: All_less_Suc2)
    then show ?thesis by blast
  qed
qed

lemma projectTokenPairs_lookup:
  "projectTokenPairs 0 ms Map.empty k = Some i \<longleftrightarrow>
     i < length ms \<and> project_key (ms ! i) = k \<and>
     (\<forall>j < length ms. i < j \<longrightarrow> project_key (ms ! j) \<noteq> k)"
proof
  assume found: "projectTokenPairs 0 ms Map.empty k = Some i"
  have "\<exists>j < length ms. project_key (ms ! j) = k"
  proof (rule ccontr)
    assume "\<not> (\<exists>j < length ms. project_key (ms ! j) = k)"
    then have "projectTokenPairs 0 ms Map.empty k = Map.empty k"
      by (intro projectTokenPairs_absent) simp
    with found show False by simp
  qed
  from last_index_exists [OF this] obtain i' where i': "i' < length ms" "project_key (ms ! i') = k"
      "\<forall>j < length ms. i' < j \<longrightarrow> project_key (ms ! j) \<noteq> k"
    by blast
  from projectTokenPairs_last [OF i', of 0 Map.empty] found have "i = i'" by simp
  with i' show "i < length ms \<and> project_key (ms ! i) = k \<and>
     (\<forall>j < length ms. i < j \<longrightarrow> project_key (ms ! j) \<noteq> k)"
    by simp
next
  assume "i < length ms \<and> project_key (ms ! i) = k \<and>
     (\<forall>j < length ms. i < j \<longrightarrow> project_key (ms ! j) \<noteq> k)"
  then show "projectTokenPairs 0 ms Map.empty k = Some i"
    using projectTokenPairs_last [of i ms k 0 Map.empty] by simp
qed

lemma attach_loop_nth:
  "\<forall>k j. tbl k = Some j \<longrightarrow> j < length ms \<Longrightarrow> i < length ms \<Longrightarrow>
   length (attach_loop tbl ps ms) = length ms \<and>
   attach_loop tbl ps ms ! i =
     (ms ! i)\<lparr>positions := positions (ms ! i) @ filter (\<lambda>p. tbl (position_key p) = Some i) ps\<rparr>"
proof (induction ps arbitrary: ms)
  case Nil
  then show ?case by simp
next
  case (Cons p ps)
  define ms' where "ms' = (case tbl (position_key p) of None \<Rightarrow> ms
          | Some j \<Rightarrow> ms[j := (ms ! j)\<lparr>positions := positions (ms ! j) @ [p]\<rparr>])"
  have len: "length ms' = length ms" by (simp add: ms'_def split: option.splits)
  have nth: "ms' ! i = (if tbl (position_key p) = Some i
                         then (ms ! i)\<lparr>positions := positions (ms ! i) @ [p]\<rparr> else ms ! i)"
    using Cons.prems(2) by (auto simp: ms'_def nth_list_update split: option.splits)
  have "\<forall>k j. tbl k = Some j \<longrightarrow> j < length ms'" using Cons.prems(1) len by simp
  moreover have "i < length ms'" using Cons.prems(2) len by simp
  ultimately have "length (attach_loop tbl ps ms') = length ms' \<and>
   attach_loop tbl ps ms' ! i =
     (ms' ! i)\<lparr>positions := positions (ms' ! i) @ filter (\<lambda>p. tbl (position_key p) = Some i) ps\<rparr>"
    by (rule Cons.IH)
  then show ?case using len nth by (simp add: ms'_def [symmetric])
qed

lemma attachPositionsToProjects_nth:
  assumes "i < length metrics"
  shows "attachPositionsToProjects metrics ps ! i =
     (metrics ! i)\<lparr>positions := positions (metrics ! i) @
        filter (\<lambda>p. position_key p = project_key (metrics ! i) \<and>
                    (\<forall>j < length metrics. i < j \<longrightarrow>
                       project_key (metrics ! j) \<noteq> project_key (metrics ! i))) ps\<rparr>"
proof -
  let ?tbl = "projectTokenPairs 0 metrics Map.empty"
  have range: "\<forall>k j. ?tbl k = Some j \<longrightarrow> j < length metrics"
    by (simp add: projectTokenPairs_lookup)
  have same: "filter (\<lambda>p. ?tbl (position_key p) = Some i) ps =
        filter (\<lambda>p. position_key p = project_key (metrics ! i) \<and>
                    (\<forall>j < length metrics. i < j \<longrightarrow>
                       project_key (metrics ! j) \<noteq> project_key (metrics ! i))) ps"
    using assms by (intro filter_cong refl) (auto simp: projectTokenPairs_lookup)
  from attach_loop_nth [OF range assms, of ps] show ?thesis
    by (simp add: attachPositionsToProjects_def same)
qed

lemma attachPositionsToProjects_length:
  "length (attachPositionsToProjects metrics ps) = length metrics"
proof (cases metrics)
  case Nil
  have "attach_loop tbl ps [] = []" for tbl
    by (induction ps) (auto split: option.splits)
  then show ?thesis using Nil by (simp add: attachPositionsToProjects_def)
next
  case (Cons m ms)
  then have "0 < length metrics" by simp
  moreover have "\<forall>k j. projectTokenPairs 0 metrics Map.empty k = Some j \<longrightarrow> j < length metrics"
    by (simp add: projectTokenPairs_lookup)
  ultimately show ?thesis
    using attach_loop_nth [of "projectTokenPairs 0 metrics Map.empty" metrics 0 ps]
    by (simp add: attachPositionsToProjects_def)
qed

lemma project_block_tokenId:
  "project_block m blk \<Longrightarrow> a \<in> set blk \<Longrightarrow>
   action_tokenId a = None \<or> (\<exists>p \<in> set (positions m). action_tokenId a = Some (tokenId p))"
  by (auto simp: project_block_def position_actions_def split: if_splits)

lemma rebalance_all_tokenIds:
  "rebalance_all chain cfg pk caller metrics st = (None, st') \<Longrightarrow>
   \<exists>blk. actions st' = actions st @ blk \<and>
         (\<forall>a \<in> set blk. action_tokenId a = None \<or>
            (\<exists>m \<in> set metrics. \<exists>p \<in> set (positions m). action_tokenId a = Some (tokenId p)))"
proof (induction metrics arbitrary: st)
  case Nil
  then show ?case by simp
next
  case (Cons m metrics)
  from Cons.prems obtain s1 where
    one: "rebalance_project chain cfg pk caller m st = (None, s1)"
    and rest: "rebalance_all chain cfg pk caller metrics s1 = (None, st')"
    by (auto simp: and_then_None)
  from rebalance_project_block [OF one] obtain b1 where
    b1: "actions s1 = actions st @ b1" and blk1: "project_block m b1"
    by blast
  from Cons.IH [OF rest] obtain b2 where
    b2: "actions st' = actions s1 @ b2"
    and own2: "\<forall>a \<in> set b2. action_tokenId a = None \<or>
            (\<exists>m \<in> set metrics. \<exists>p \<in> set (positions m). action_tokenId a = Some (tokenId p))"
    by blast
  show ?case
  proof (intro exI [of _ "b1 @ b2"] conjI ballI)
    show "actions st' = actions st @ b1 @ b2" using b1 b2 by simp
  next
    fix a assume "a \<in> set (b1 @ b2)"
    then consider "a \<in> set b1" | "a \<in> set b2" by auto
    then show "action_tokenId a = None \<or>
            (\<exists>m' \<in> set (m # metrics). \<exists>p \<in> set (positions m'). action_tokenId a = Some (tokenId p))"
    proof cases
      case 1
      from project_block_tokenId [OF blk1 1] show ?thesis by auto
    next
      case 2
      with own2 show ?thesis by auto
    qed
  qed
qed

lemma attached_actions_matched:
  assumes bare: "\<forall>m \<in> set metrics. positions m = []"
    and run: "rebalance_all chain cfg pk caller (attachPositionsToProjects metrics ps)
                \<lparr>actions = [], calls = [], world = w\<rparr> = (None, st)"
    and act: "act \<in> set (actions st)" and tid: "action_tokenId act = Some tid"
  shows "\<exists>p \<in> set ps. tokenId p = tid \<and> (\<exists>m \<in> set metrics. position_key p = project_key m)"
proof -
  from rebalance_all_tokenIds [OF run] have own:
    "\<forall>a \<in> set (actions st). action_tokenId a = None \<or>
       (\<exists>m \<in> set (attachPositionsToProjects metrics ps).
          \<exists>p \<in> set (positions m). action_tokenId a = Some (tokenId p))"
    by simp
  from own act have "action_tokenId act = None \<or>
       (\<exists>m \<in> set (attachPositionsToProjects metrics ps).
          \<exists>p \<in> set (positions m). action_tokenId act = Some (tokenId p))"
    by (rule bspec)
  with tid obtain m' p where
    m': "m' \<in> set (attachPositionsToProjects metrics ps)"
    and p: "p \<in> set (positions m')" and same: "tokenId p = tid"
    by auto
  from m' obtain i where "i < length (attachPositionsToProjects metrics ps)"
    and at: "m' = attachPositionsToProjects metrics ps ! i"
    unfolding in_set_conv_nth by blast
  then have i: "i < length metrics" by (simp add: attachPositionsToProjects_length)
  have "positions (metrics ! i) = []" using bare i by simp
  with p at attachPositionsToProjects_nth [OF i, of ps]
  have "p \<in> set ps" "position_key p = project_key (metrics ! i)" by auto
  moreover have "metrics ! i \<in> set metrics" using i by simp
  ultimately show ?thesis using same by blast
qed

text \<open>
  C7, as amended. The match key of a token pair does not depend on the order of the two
  addresses nor on their letter case, and for addresses (which hold no colon) two keys are
  equal exactly when the unordered pairs of the lowercased addresses are equal. A
  position is appended to the metrics of a project iff its key equals the key of the
  project and no later project of the list has that same key (projects with one token
  pair share one slot of the lookup, which keeps the last of them); the appended
  positions keep the order of discovery. In a completed run over the metrics so attached,
  every recorded position action carries the token id of an owned position whose key is
  the key of some project, so a position that matches no project yields no action.
\<close>

theorem attachPositionsToProjects_match:
  "pair_key a b = pair_key b a \<and>
   (toLowerCase a = toLowerCase a' \<and> toLowerCase b = toLowerCase b' \<longrightarrow>
      pair_key a b = pair_key a' b') \<and>
   (CHR '':'' \<notin> set a \<union> set b \<union> set c \<union> set d \<longrightarrow>
      (pair_key a b = pair_key c d \<longleftrightarrow>
         {toLowerCase a, toLowerCase b} = {toLowerCase c, toLowerCase d})) \<and>
   (i < length metrics \<longrightarrow>
      attachPositionsToProjects metrics ps ! i =
        (metrics ! i)\<lparr>positions := positions (metrics ! i) @
           filter (\<lambda>p. position_key p = project_key (metrics ! i) \<and>
                       (\<forall>j < length metrics. i < j \<longrightarrow>
                          project_key (metrics ! j) \<noteq> project_key (metrics ! i))) ps\<rparr>) \<and>
   length (attachPositionsToProjects metrics ps) = length metrics \<and>
   ((\<forall>m \<in> set bare. positions m = []) \<and>
    rebalance_all chain networkConfig pkpPublicKey pkpAddress (attachPositionsToProjects bare owned)
      \<lparr>actions = [], calls = [], world = w\<rparr> = (None, st) \<longrightarrow>
      (\<forall>act \<in> set (actions st). \<forall>tid. action_tokenId act = Some tid \<longrightarrow>
         (\<exists>p \<in> set owned. tokenId p = tid \<and>
            (\<exists>m \<in> set bare. position_key p = project_key m))))"
proof -
  have p1: "pair_key a b = pair_key b a" by (rule pair_key_commute)
  have p2: "toLowerCase a = toLowerCase a' \<and> toLowerCase b = toLowerCase b' \<longrightarrow>
      pair_key a b = pair_key a' b'"
  proof (rule impI)
    assume same: "toLowerCase a = toLowerCase a' \<and> toLowerCase b = toLowerCase b'"
    from same have "toLowerCase a = toLowerCase a'" by (rule conjunct1)
    moreover from same have "toLowerCase b = toLowerCase b'" by (rule conjunct2)
    ultimately show "pair_key a b = pair_key a' b'" by (rule pair_key_case)
  qed
  have p3: "CHR '':'' \<notin> set a \<union> set b \<union> set c \<union> set d \<longrightarrow>
      (pair_key a b = pair_key c d \<longleftrightarrow>
         {toLowerCase a, toLowerCase b} = {toLowerCase c, toLowerCase d})"
  proof (rule impI)
    assume "CHR '':'' \<notin> set a \<union> set b \<union> set c \<union> set d"
    then have "CHR '':'' \<notin> set a" "CHR '':'' \<notin> set b" "CHR '':'' \<notin> set c" "CHR '':'' \<notin> set d"
      by simp_all
    then show "pair_key a b = pair_key c d \<longleftrightarrow>
         {toLowerCase a, toLowerCase b} = {toLowerCase c, toLowerCase d}"
      by (rule pair_key_eq_iff)
  qed
  have p4: "i < length metrics \<longrightarrow>
      attachPositionsToProjects metrics ps ! i =
        (metrics ! i)\<lparr>positions := positions (metrics ! i) @
           filter (\<lambda>p. position_key p = project_key (metrics ! i) \<and>
                       (\<forall>j < length metrics. i < j \<longrightarrow>
                          project_key (metrics ! j) \<noteq> project_key (metrics ! i))) ps\<rparr>"
    by (rule impI) (rule attachPositionsToProjects_nth)
  have p5: "length (attachPositionsToProjects metrics ps) = length metrics"
    by (rule attachPositionsToProjects_length)
  have p6: "(\<forall>m \<in> set bare. positions m = []) \<and>
    rebalance_all chain networkConfig pkpPublicKey pkpAddress (attachPositionsToProjects bare owned)
      \<lparr>actions = [], calls = [], world = w\<rparr> = (None, st) \<longrightarrow>
      (\<forall>act \<in> set (actions st). \<forall>tid. action_tokenId act = Some tid \<longrightarrow>
         (\<exists>p \<in> set owned. tokenId p = tid \<and>
            (\<exists>m \<in> set bare. position_key p = project_key m)))"
  proof (rule impI, rule ballI, rule allI, rule impI)
    fix act tid
    assume both: "(\<forall>m \<in> set bare. positions m = []) \<and>
      rebalance_all chain networkConfig pkpPublicKey pkpAddress (attachPositionsToProjects bare owned)
        \<lparr>actions = [], calls = [], world = w\<rparr> = (None, st)"
      and act: "act \<in> set (actions st)" and tid: "action_tokenId act = Some tid"
    from both have empty: "\<forall>m \<in> set bare. positions m = []" by (rule conjunct1)
    from both have run: "rebalance_all chain networkConfig pkpPublicKey pkpAddress
        (attachPositionsToProjects bare owned) \<lparr>actions = [], calls = [], world = w\<rparr> = (None, st)"
      by (rule conjunct2)
    from empty run act tid
    show "\<exists>p \<in> set owned. tokenId p = tid \<and>
              (\<exists>m \<in> set bare. position_key p = project_key m)"
      by (rule attached_actions_matched)
  qed
  show ?thesis
    by (rule conjI [OF p1 conjI [OF p2 conjI [OF p3 conjI [OF p4 conjI [OF p5 p6]]]]])
qed

theorem attachPositionsToProjects_match_witness:
  "toLowerCase ''0xEE'' = toLowerCase ''0xEe'' \<and> toLowerCase ''0xBB'' = toLowerCase ''0xBb'' \<and>
   pair_key ''0xEE'' ''0xBB'' = pair_key ''0xEe'' ''0xBb'' \<and>
   pair_key ''0xEE'' ''0xBB'' = pair_key ''0xBB'' ''0xEE'' \<and>
   CHR '':'' \<notin> set ''0xEE'' \<union> set ''0xBB'' \<union> set ''0xBb'' \<union> set ''0xEe'' \<and>
   (pair_key ''0xEE'' ''0xBB'' = pair_key ''0xBb'' ''0xEe'' \<longleftrightarrow>
      {toLowerCase ''0xEE'', toLowerCase ''0xBB''} = {toLowerCase ''0xBb'', toLowerCase ''0xEe''}) \<and>
   (1::nat) < length demo_bare_metrics \<and>
   attachPositionsToProjects demo_bare_metrics demo_positions ! 1 =
     (demo_bare_metrics ! 1)\<lparr>positions := positions (demo_bare_metrics ! 1) @
        filter (\<lambda>p. position_key p = project_key (demo_bare_metrics ! 1) \<and>
                    (\<forall>j < length demo_bare_metrics. 1 < j \<longrightarrow>
                       project_key (demo_bare_metrics ! j) \<noteq> project_key (demo_bare_metrics ! 1)))
          demo_positions\<rparr> \<and>
   map tokenId (positions (attachPositionsToProjects demo_bare_metrics demo_positions ! 1)) = [''8''] \<and>
   map positions demo_bare_metrics = [[], []] \<and>
   fst demo_match_run = None \<and>
   map action_tokenId (actions (snd demo_match_run)) =
     [None, Some ''7'', Some ''7'', None, Some ''8'', Some ''8'', Some ''8''] \<and>
   actions (snd demo_match_run) ! 4 \<in> set (actions (snd demo_match_run)) \<and>
   action_tokenId (actions (snd demo_match_run) ! 4) = Some ''8'' \<and>
   (\<exists>p \<in> set demo_positions. tokenId p = ''8'' \<and>
      (\<exists>m \<in> set demo_bare_metrics. position_key p = project_key m))"
proof -
  have lower: "toLowerCase ''0xEE'' = toLowerCase ''0xEe'' \<and> toLowerCase ''0xBB'' = toLowerCase ''0xBb''"
    by code_simp
  have colon: "CHR '':'' \<notin> set ''0xEE'' \<union> set ''0xBB'' \<union> set ''0xBb'' \<union> set ''0xEe''"
    by simp
  have index: "(1::nat) < length demo_bare_metrics" by (simp add: demo_bare_metrics_def)
  have empty: "map positions demo_bare_metrics = [[], []]"
    by (simp add: demo_bare_metrics_def demo_metric_def)
  have bare: "\<forall>m \<in> set demo_bare_metrics. positions m = []"
    by (simp add: demo_bare_metrics_def demo_metric_def)
  have none: "fst demo_match_run = None" by code_simp
  have ids: "map action_tokenId (actions (snd demo_match_run)) =
     [None, Some ''7'', Some ''7'', None, Some ''8'', Some ''8'', Some ''8'']"
    by code_simp
  have count: "length (actions (snd demo_match_run)) = 7"
    using arg_cong [OF ids, of length] by simp
  have member: "actions (snd demo_match_run) ! 4 \<in> set (actions (snd demo_match_run))"
    by (rule nth_mem) (simp add: count)
  have fifth: "action_tokenId (actions (snd demo_match_run) ! 4) = Some ''8''"
    by code_simp
  have attached: "map tokenId (positions (attachPositionsToProjects demo_bare_metrics demo_positions ! 1)) = [''8'']"
    by code_simp
  have run: "rebalance_all (demo_chain 0 0) demo_config ''0x04Key'' ''0xPKP''
       (attachPositionsToProjects demo_bare_metrics demo_positions)
       \<lparr>actions = [], calls = [], world = 0\<rparr> = (None, snd demo_match_run)"
    using none by (simp add: demo_match_run_def prod_eq_iff)
  note inst = attachPositionsToProjects_match
    [where a = "''0xEE''" and b = "''0xBB''" and a' = "''0xEe''" and b' = "''0xBb''"
       and c = "''0xBb''" and d = "''0xEe''"
       and i = 1 and metrics = demo_bare_metrics and ps = demo_positions
       and bare = demo_bare_metrics and owned = demo_positions
       and chain = "demo_chain 0 0" and networkConfig = demo_config
       and pkpPublicKey = "''0x04Key''" and pkpAddress = "''0xPKP''"
       and w = 0 and st = "snd demo_match_run"]
  note c1 = inst [THEN conjunct1]
  note c2 = inst [THEN conjunct2, THEN conjunct1, THEN mp, OF lower]
  note c3 = inst [THEN conjunct2, THEN conjunct2, THEN conjunct1, THEN mp, OF colon]
  note c4 = inst [THEN conjunct2, THEN conjunct2, THEN conjunct2, THEN conjunct1, THEN mp, OF index]
  note c6 = inst [THEN conjunct2, THEN conjunct2, THEN conjunct2, THEN conjunct2, THEN conjunct2,
                  THEN mp, OF conjI [OF bare run], THEN bspec, OF member, THEN spec, THEN mp,
                  OF fifth]
  show ?thesis
    by (intro conjI lower [THEN conjunct1] lower [THEN conjunct2] c2 c1 colon c3 index c4
          attached empty none ids member fifth c6)
qed

text \<open>
  The claim as first stated fails for two projects with the same token pair: the position
  has the token pair of the first project, yet it is appended to the second project only.
\<close>

theorem attachPositionsToProjects_shared_pair_counterexample:
  "position_key (demo_position ''7'' ''0xAa'' ''0xEe'' 1000) =
     project_key (demo_metric ''0xA1'' ''0xAa'' 0 none []) \<and>
   positions (attachPositionsToProjects
      [demo_metric ''0xA1'' ''0xAa'' 0 none [], demo_metric ''0xA2'' ''0xAa'' 0 none []]
      [demo_position ''7'' ''0xAa'' ''0xEe'' 1000] ! 0) = [] \<and>
   positions (attachPositionsToProjects
      [demo_metric ''0xA1'' ''0xAa'' 0 none [], demo_metric ''0xA2'' ''0xAa'' 0 none []]
      [demo_position ''7'' ''0xAa'' ''0xEe'' 1000] ! 1) = [demo_position ''7'' ''0xAa'' ''0xEe'' 1000]"
  by code_simp

end
